theory Spec2Isabelle
  imports Main "HOL-Library.List_Lexorder"
begin

text \<open>
  The FS25 documentation scraper of \<open>src/main.py\<close>, class \<open>FS25DocScraper\<close>: it reads the
  root page of a documentation site, walks the categories of its side bar and their
  subcategories, saves each leaf page as a markdown file unless the file is there already,
  and writes a manifest and an index at the end. The program is modelled as functions on
  an explicit state (the scraper's fields, the directory tree and the trace of what the
  run printed, requested and wrote); an exception of the source is an \<open>Inl\<close> result.
\<close>

section \<open>Python strings\<close>

text \<open>
  A Python \<open>str\<close> is a sequence of Unicode code points. It is modelled as a list of
  natural numbers, one per code point, so that \<open>length\<close> counts what Python's
  \<open>len\<close> counts. \<open>ascii\<close> turns a literal of the source into such a list.
\<close>

type_synonym pystr = "nat list"

definition ascii :: "string \<Rightarrow> pystr" where
  "ascii s = map of_char s"

text \<open>
  Character classes. For a \<open>str\<close> pattern the regular expression classes \<open>\\s\<close> and
  \<open>\\w\<close> follow the Unicode database, as \<open>str.isspace\<close> and \<open>str.isalnum\<close> do, and
  \<open>str.strip()\<close> removes the same white space. Below 128 the classes are written out;
  from 128 on they are read from the two tables \<open>uni_space\<close> and \<open>uni_alnum\<close>, which are
  parameters of the model (the Unicode database of the running interpreter).
\<close>

record unicode_db =
  uni_space :: "nat \<Rightarrow> bool"
  uni_alnum :: "nat \<Rightarrow> bool"

definition isspace :: "'a unicode_db_scheme \<Rightarrow> nat \<Rightarrow> bool" where
  "isspace u c =
     (if c < 128 then (9 \<le> c \<and> c \<le> 13) \<or> (28 \<le> c \<and> c \<le> 32) else uni_space u c)"

definition isalnum :: "'a unicode_db_scheme \<Rightarrow> nat \<Rightarrow> bool" where
  "isalnum u c =
     (if c < 128 then (48 \<le> c \<and> c \<le> 57) \<or> (65 \<le> c \<and> c \<le> 90) \<or> (97 \<le> c \<and> c \<le> 122)
      else uni_alnum u c)"

text \<open>\<open>\\w\<close>: alphanumeric or the underscore (code point 95).\<close>

definition isword :: "'a unicode_db_scheme \<Rightarrow> nat \<Rightarrow> bool" where
  "isword u c = (isalnum u c \<or> c = 95)"

text \<open>\<open>s.strip()\<close>: leading and trailing white space removed.\<close>

definition lstrip :: "'a unicode_db_scheme \<Rightarrow> pystr \<Rightarrow> pystr" where
  "lstrip u s = dropWhile (isspace u) s"

definition rstrip :: "'a unicode_db_scheme \<Rightarrow> pystr \<Rightarrow> pystr" where
  "rstrip u s = rev (dropWhile (isspace u) (rev s))"

definition strip :: "'a unicode_db_scheme \<Rightarrow> pystr \<Rightarrow> pystr" where
  "strip u s = rstrip u (lstrip u s)"

text \<open>\<open>sub in s\<close> for two strings: \<open>sub\<close> occurs in \<open>s\<close> as a contiguous piece.\<close>

fun py_in :: "pystr \<Rightarrow> pystr \<Rightarrow> bool" where
  "py_in sub [] = (sub = [])"
| "py_in sub (c # cs) = (take (length sub) (c # cs) = sub \<or> py_in sub cs)"

text \<open>\<open>sep.join(parts)\<close>.\<close>

fun join :: "pystr \<Rightarrow> pystr list \<Rightarrow> pystr" where
  "join sep [] = []"
| "join sep [p] = p"
| "join sep (p # q # ps) = p @ sep @ join sep (q # ps)"

text \<open>\<open>str(n)\<close> for a non-negative integer: its decimal digits.\<close>

fun str_of_nat :: "nat \<Rightarrow> pystr" where
  "str_of_nat n = (if n < 10 then [48 + n] else str_of_nat (n div 10) @ [48 + n mod 10])"

text \<open>\<open>s.upper()\<close> on a string of ASCII letters (it is applied to version tags only).\<close>

definition upper :: "pystr \<Rightarrow> pystr" where
  "upper s = map (\<lambda>c. if 97 \<le> c \<and> c \<le> 122 then c - 32 else c) s"

section \<open>Safe file names\<close>

text \<open>
  Both \<open>save_content\<close> and \<open>scrape_page\<close> compute
  \<^verbatim>\<open>re.sub(r'[^\w\s-]', '', name).strip().replace(' ', '_')\<close>.
  The substitution deletes every character that is neither a word character, nor white
  space, nor the hyphen (45); \<open>replace\<close> turns each space (32) into an underscore (95).
\<close>

definition re_sub_unsafe :: "'a unicode_db_scheme \<Rightarrow> pystr \<Rightarrow> pystr" where
  "re_sub_unsafe u s = filter (\<lambda>c. isword u c \<or> isspace u c \<or> c = 45) s"

definition replace_space :: "pystr \<Rightarrow> pystr" where
  "replace_space s = map (\<lambda>c. if c = 32 then 95 else c) s"

definition safe_name :: "'a unicode_db_scheme \<Rightarrow> pystr \<Rightarrow> pystr" where
  "safe_name u s = replace_space (strip u (re_sub_unsafe u s))"

section \<open>Parsed pages\<close>

text \<open>
  What \<open>BeautifulSoup(html, 'html.parser')\<close> returns: a tree of tags, each with a name,
  its attributes and its children, whose leaves are strings. \<open>Comment\<close> stands for the
  string kinds that \<open>.text\<close> leaves out.
\<close>

datatype node =
    Tag pystr "(pystr \<times> pystr) list" "node list"
  | NavigableString pystr
  | Comment pystr

text \<open>All nodes below a node in document order, as \<open>find\<close> and \<open>find_all\<close> visit them.\<close>

fun descendants :: "node \<Rightarrow> node list" where
  "descendants (Tag n a cs) = concat (map (\<lambda>c. c # descendants c) cs)"
| "descendants (NavigableString t) = []"
| "descendants (Comment t) = []"

fun children :: "node \<Rightarrow> node list" where
  "children (Tag n a cs) = cs"
| "children (NavigableString t) = []"
| "children (Comment t) = []"

fun is_tag :: "pystr \<Rightarrow> node \<Rightarrow> bool" where
  "is_tag n (Tag m a cs) = (m = n)"
| "is_tag n (NavigableString t) = False"
| "is_tag n (Comment t) = False"

text \<open>\<open>tag.get(key)\<close>: the attribute's value, or \<open>None\<close>.\<close>

fun attr :: "node \<Rightarrow> pystr \<Rightarrow> pystr option" where
  "attr (Tag n a cs) k = map_of a k"
| "attr (NavigableString t) k = None"
| "attr (Comment t) k = None"

text \<open>\<open>tag.string\<close>: the only string below a tag that has a single line of only children.\<close>

fun node_string :: "node \<Rightarrow> pystr option" where
  "node_string (Tag n a [c]) = node_string c"
| "node_string (Tag n a cs) = None"
| "node_string (NavigableString t) = Some t"
| "node_string (Comment t) = Some t"

text \<open>\<open>tag.text\<close>: the strings below a tag, concatenated.\<close>

fun get_text :: "node \<Rightarrow> pystr" where
  "get_text (Tag n a cs) = concat (map get_text cs)"
| "get_text (NavigableString t) = t"
| "get_text (Comment t) = []"

text \<open>
  The \<open>class\<close> attribute is a list of names separated by white space; \<open>class_='x'\<close>
  selects a tag that has \<open>x\<close> among them.
\<close>

fun split_ws :: "'a unicode_db_scheme \<Rightarrow> pystr \<Rightarrow> pystr \<Rightarrow> pystr list" where
  "split_ws u w [] = (if w = [] then [] else [w])"
| "split_ws u w (c # cs) =
     (if isspace u c then (if w = [] then [] else [w]) @ split_ws u [] cs
      else split_ws u (w @ [c]) cs)"

definition has_class :: "'a unicode_db_scheme \<Rightarrow> pystr \<Rightarrow> node \<Rightarrow> bool" where
  "has_class u cls t =
     (case attr t (ascii ''class'') of None \<Rightarrow> False | Some v \<Rightarrow> cls \<in> set (split_ws u [] v))"

text \<open>\<open>tag.find_all('a', href=True)\<close>, each link with the value of its \<open>href\<close>.\<close>

definition find_all_a_href :: "node \<Rightarrow> (pystr \<times> node) list" where
  "find_all_a_href t =
     List.map_filter
       (\<lambda>l. if is_tag (ascii ''a'') l
            then (case attr l (ascii ''href'') of None \<Rightarrow> None | Some h \<Rightarrow> Some (h, l))
            else None)
       (descendants t)"

text \<open>
  A tag together with its place in the document is the list of nodes from that tag on, in
  document order. \<open>find_within P n xs\<close> is the first node with \<open>P\<close> among the first \<open>n\<close>
  nodes of \<open>xs\<close>, with all that follows it; the empty list when there is none.
\<close>

fun find_within :: "('a \<Rightarrow> bool) \<Rightarrow> nat \<Rightarrow> 'a list \<Rightarrow> 'a list" where
  "find_within P 0 xs = []"
| "find_within P (Suc n) [] = []"
| "find_within P (Suc n) (x # xs) = (if P x then x # xs else find_within P n xs)"

section \<open>The world outside the program\<close>

type_synonym params = "(pystr \<times> pystr) list"

datatype response =
    Conn_error pystr
  | Http_response nat pystr

text \<open>
  The libraries and the network are parameters of the model:
  \<^item> \<open>BeautifulSoup\<close>: the HTML parser, and \<open>rejects_markup\<close>: the markup for which it
    raises \<open>ParserRejectedMarkup\<close> instead of returning a tree;
  \<^item> \<open>str_node\<close>: \<open>str(tag)\<close>, the markup of a tag;
  \<^item> \<open>h2t_handle\<close>: \<open>html2text.HTML2Text().handle\<close> with links kept and no wrapping;
  \<^item> \<open>urlparse_raises\<close>: the addresses on which \<open>urlparse(href)\<close> raises \<open>ValueError\<close>
    (an unbalanced bracket in the host part, as in \<open>//[?class=1\<close>);
  \<^item> \<open>parse_qs\<close>: \<open>parse_qs(urlparse(href).query)\<close> where \<open>urlparse\<close> returns, read as the
    map from a key to the first of its values, \<open>parsed[key][0]\<close> (\<open>None\<close> when the key is
    not in \<open>parsed\<close>);
  \<^item> \<open>json_dump\<close>: the text that \<open>json.dump(manifest, indent=2, ensure_ascii=False)\<close> writes;
  \<^item> \<open>http k url params\<close>: what the server answers to the request sent after \<open>k\<close> earlier
    ones, a connection error (or timeout) or a status code and a body;
  \<^item> \<open>now\<close>: \<open>datetime.now().isoformat()\<close> at the time the manifest is saved.
  The exceptions of the libraries that are modelled are these two, which the pages of the
  site decide; \<open>html2text\<close>, \<open>str\<close> and \<open>json.dump\<close> are taken to return.
\<close>

text \<open>
  The value under the key \<open>version\<close> is one of the two strings the program itself
  writes there, \<open>'script'\<close> and \<open>'engine'\<close>; \<open>version_str\<close> gives the string back.
\<close>

datatype version = Script | Engine

fun version_str :: "version \<Rightarrow> pystr" where
  "version_str Script = ascii ''script''"
| "version_str Engine = ascii ''engine''"

record item =
  i_name :: pystr
  i_path :: pystr

record manifest =
  generated_at :: "pystr option"
  source_url :: pystr
  total_files :: int
  versions :: "(version \<times> (pystr \<times> item list) list) list"

record env = unicode_db +
  BeautifulSoup :: "pystr \<Rightarrow> node"
  rejects_markup :: "pystr \<Rightarrow> bool"
  str_node :: "node \<Rightarrow> pystr"
  h2t_handle :: "pystr \<Rightarrow> pystr"
  urlparse_raises :: "pystr \<Rightarrow> bool"
  parse_qs :: "pystr \<Rightarrow> pystr \<Rightarrow> pystr option"
  json_dump :: "manifest \<Rightarrow> pystr"
  http :: "nat \<Rightarrow> pystr \<Rightarrow> params option \<Rightarrow> response"
  now :: pystr

section \<open>Categories, files, and the state of a run\<close>

text \<open>
  The dictionaries that \<open>parse_main_page\<close> and \<open>get_subcategories\<close> build have the keys
  \<open>version\<close>, \<open>category\<close> and \<open>name\<close>, one of \<open>class\<close> and \<open>function\<close>, and for a
  subcategory \<open>category_name\<close>. A key that may be missing is an option.
\<close>

record category_info =
  ci_version :: version
  ci_category :: pystr
  ci_class :: "pystr option"
  ci_function :: "pystr option"
  ci_name :: pystr
  ci_category_name :: "pystr option"

text \<open>
  A path is the list of its components. \<open>joinpath p seg\<close> is \<open>p / seg\<close> for a segment
  without a separator: the empty segment adds nothing. The program joins no other
  segments: a version tag, a safe name (the separator and the dot are among the characters
  a safe name has lost), a safe name followed by \<open>.md\<close>, and two fixed file names.
  A directory tree maps a path to what is there; the empty path is the directory the paths
  are relative to, always present. The errors of the model are those the shape of the tree
  decides (a missing directory, a file in the way); permissions, quotas and encodings are
  outside it.
\<close>

type_synonym path = "pystr list"

definition joinpath :: "path \<Rightarrow> pystr \<Rightarrow> path" where
  "joinpath p seg = (if seg = [] then p else p @ [seg])"

definition as_posix :: "path \<Rightarrow> pystr" where
  "as_posix p = join (ascii ''/'') p"

datatype entry = Dir | File pystr

type_synonym filesystem = "path \<Rightarrow> entry option"

definition path_exists :: "filesystem \<Rightarrow> path \<Rightarrow> bool" where
  "path_exists f p = (p = [] \<or> f p \<noteq> None)"

definition is_dir :: "filesystem \<Rightarrow> path \<Rightarrow> bool" where
  "is_dir f p = (p = [] \<or> f p = Some Dir)"

datatype error =
    KeyError pystr
  | ValueError
  | ParserRejectedMarkup
  | FileNotFoundError path
  | NotADirectoryError path
  | FileExistsError path
  | IsADirectoryError path

fun is_OSError :: "error \<Rightarrow> bool" where
  "is_OSError (KeyError k) = False"
| "is_OSError ValueError = False"
| "is_OSError ParserRejectedMarkup = False"
| "is_OSError (FileNotFoundError p) = True"
| "is_OSError (NotADirectoryError p) = True"
| "is_OSError (FileExistsError p) = True"
| "is_OSError (IsADirectoryError p) = True"

text \<open>What the program prints, one constructor per \<open>print\<close> of the source.\<close>

datatype message =
    Banner_rule
  | Banner_title
  | Fetching_main_page
  | Error_fetching pystr response
  | Could_not_find_sidebar
  | Found_categories nat
  | Fetching_subcategories pystr
  | Already_exists pystr
  | Scraping pystr
  | No_content_found pystr
  | Saved path
  | Failed_to_parse_main_page
  | Processing int nat pystr
  | No_subcategories_found
  | Generating_manifest
  | Manifest_saved path
  | Index_saved path
  | Scraping_complete
  | Successfully_scraped int
  | Failed int
  | Output_directory path

text \<open>
  What a run does to the world, in order: \<open>Sleep_ms\<close> is \<open>time.sleep\<close> (in milliseconds),
  \<open>Http_get url params timeout\<close> is \<open>session.get\<close>, \<open>Write_file\<close> is a file opened for
  writing and written.
\<close>

datatype event =
    Sleep_ms nat
  | Http_get pystr "params option" nat
  | Print message
  | Write_file path pystr

record state =
  base_url :: pystr
  output_dir :: path
  manifest :: manifest
  fs :: filesystem
  trace :: "event list"

definition emit :: "event \<Rightarrow> state \<Rightarrow> state" where
  "emit e s = s\<lparr>trace := trace s @ [e]\<rparr>"

fun is_request :: "event \<Rightarrow> bool" where
  "is_request (Http_get url ps t) = True"
| "is_request (Sleep_ms n) = False"
| "is_request (Print m) = False"
| "is_request (Write_file p c) = False"

definition n_requests :: "event list \<Rightarrow> nat" where
  "n_requests tr = length (filter is_request tr)"

text \<open>\<open>FS25DocScraper.__init__\<close>, in a world whose directory tree is \<open>f\<close>.\<close>

definition init :: "pystr \<Rightarrow> path \<Rightarrow> filesystem \<Rightarrow> state" where
  "init url out f =
     \<lparr>base_url = url, output_dir = out,
      manifest = \<lparr>generated_at = None, source_url = url, total_files = 0, versions = []\<rparr>,
      fs = f, trace = []\<rparr>"

text \<open>\<open>path.mkdir(parents=True, exist_ok=True)\<close>: \<open>done\<close> is there already, \<open>todo\<close> are
  the components still to descend through.\<close>

fun mkdir_from :: "path \<Rightarrow> pystr list \<Rightarrow> filesystem \<Rightarrow> error + filesystem" where
  "mkdir_from done [] f = Inr f"
| "mkdir_from done (c # cs) f =
     (case f (done @ [c]) of
        Some Dir \<Rightarrow> mkdir_from (done @ [c]) cs f
      | Some (File x) \<Rightarrow>
          Inl (if cs = [] then FileExistsError (done @ [c]) else NotADirectoryError (done @ c # cs))
      | None \<Rightarrow> mkdir_from (done @ [c]) cs (f(done @ [c] \<mapsto> Dir)))"

definition mkdir_parents :: "path \<Rightarrow> filesystem \<Rightarrow> error + filesystem" where
  "mkdir_parents p f = mkdir_from [] p f"

text \<open>\<open>with open(p, 'w') as f: f.write(text)\<close>.\<close>

definition open_write :: "path \<Rightarrow> pystr \<Rightarrow> state \<Rightarrow> (error + unit) \<times> state" where
  "open_write p text s =
     (if p = [] \<or> fs s p = Some Dir then (Inl (IsADirectoryError p), s)
      else if is_dir (fs s) (butlast p)
      then (Inr (), emit (Write_file p text) (s\<lparr>fs := (fs s)(p \<mapsto> File text)\<rparr>))
      else if fs s (butlast p) = None then (Inl (FileNotFoundError p), s)
      else (Inl (NotADirectoryError p), s))"

section \<open>Fetching and walking the site\<close>

text \<open>\<open>get_page\<close>: wait half a second, send one request with a timeout of 30 seconds,
  return the body, or print the error and return \<open>None\<close>. \<open>raise_for_status\<close> raises
  for the status codes from 400 to 599.\<close>

definition get_page :: "env \<Rightarrow> pystr \<Rightarrow> params option \<Rightarrow> state \<Rightarrow> pystr option \<times> state" where
  "get_page e url ps s =
     (let resp = http e (n_requests (trace s)) url ps;
          s1 = emit (Http_get url ps 30) (emit (Sleep_ms 500) s)
      in case resp of
           Conn_error msg \<Rightarrow> (None, emit (Print (Error_fetching url resp)) s1)
         | Http_response status body \<Rightarrow>
             if 400 \<le> status \<and> status < 600
             then (None, emit (Print (Error_fetching url resp)) s1)
             else (Some body, s1))"

text \<open>\<open>if not html\<close>: no page, or an empty one.\<close>

definition falsy :: "pystr option \<Rightarrow> bool" where
  "falsy x = (case x of None \<Rightarrow> True | Some v \<Rightarrow> v = [])"

text \<open>The side bar is the first \<open>div\<close> whose style names both its width and its float.\<close>

definition is_sidebar :: "node \<Rightarrow> bool" where
  "is_sidebar t =
     (is_tag (ascii ''div'') t \<and>
      (case attr t (ascii ''style'') of
         None \<Rightarrow> False
       | Some x \<Rightarrow> x \<noteq> [] \<and> py_in (ascii ''width:200px'') x \<and> py_in (ascii ''float:left'') x))"

text \<open>\<open>find('h3', class_='version', string=lambda x: x and word in x)\<close>.\<close>

definition is_version_heading :: "'a unicode_db_scheme \<Rightarrow> pystr \<Rightarrow> node \<Rightarrow> bool" where
  "is_version_heading u word t =
     (is_tag (ascii ''h3'') t \<and> has_class u (ascii ''version'') t \<and>
      (case node_string t of None \<Rightarrow> False | Some x \<Rightarrow> x \<noteq> [] \<and> py_in word x))"

text \<open>
  One link of a family. A link whose address names the version and a category has its
  address parsed: \<open>urlparse\<close> raises \<open>ValueError\<close> on an address it cannot split, and a
  link whose query lacks one of the two keys is passed over.
\<close>

definition script_category :: "env \<Rightarrow> pystr \<times> node \<Rightarrow> error + category_info option" where
  "script_category e hl =
     (let href = fst hl; link = snd hl in
      if py_in (ascii ''version=script'') href \<and> py_in (ascii ''category='') href
      then (if urlparse_raises e href then Inl ValueError
            else Inr (case parse_qs e href (ascii ''category'') of
                        None \<Rightarrow> None
                      | Some cat \<Rightarrow>
                          (case parse_qs e href (ascii ''class'') of
                             None \<Rightarrow> None
                           | Some cls \<Rightarrow>
                               Some \<lparr>ci_version = Script, ci_category = cat, ci_class = Some cls,
                                     ci_function = None, ci_name = strip e (get_text link),
                                     ci_category_name = None\<rparr>)))
      else Inr None)"

definition engine_category :: "env \<Rightarrow> pystr \<times> node \<Rightarrow> error + category_info option" where
  "engine_category e hl =
     (let href = fst hl; link = snd hl in
      if py_in (ascii ''version=engine'') href \<and> py_in (ascii ''category='') href
      then (if urlparse_raises e href then Inl ValueError
            else Inr (case parse_qs e href (ascii ''category'') of
                        None \<Rightarrow> None
                      | Some cat \<Rightarrow>
                          (case parse_qs e href (ascii ''function'') of
                             None \<Rightarrow> None
                           | Some fn \<Rightarrow>
                               Some \<lparr>ci_version = Engine, ci_category = cat, ci_class = None,
                                     ci_function = Some fn, ci_name = strip e (get_text link),
                                     ci_category_name = None\<rparr>)))
      else Inr None)"

text \<open>
  One family of the side bar: the heading is looked for below the side bar, the list is
  the first \<open>ul\<close> after the heading anywhere in the document (\<open>find_next\<close>), the links are
  those below that list. \<open>from_sidebar\<close> is the document from the side bar on.
\<close>

definition section_links :: "env \<Rightarrow> pystr \<Rightarrow> node list \<Rightarrow> (pystr \<times> node) list" where
  "section_links e word from_sidebar =
     (case from_sidebar of
        [] \<Rightarrow> []
      | sidebar # after \<Rightarrow>
          (case find_within (is_version_heading e word) (length (descendants sidebar)) after of
             [] \<Rightarrow> []
           | heading # following \<Rightarrow>
               (case dropWhile (\<lambda>t. \<not> is_tag (ascii ''ul'') t) following of
                  [] \<Rightarrow> []
                | ul # rest \<Rightarrow> find_all_a_href ul)))"

text \<open>
  The two loops over the links of a family, appending to \<open>categories\<close>; the first link
  that raises ends them.
\<close>

fun script_links :: "env \<Rightarrow> (pystr \<times> node) list \<Rightarrow> category_info list \<Rightarrow> error + category_info list" where
  "script_links e [] categories = Inr categories"
| "script_links e (hl # links) categories =
     (case script_category e hl of
        Inl err \<Rightarrow> Inl err
      | Inr None \<Rightarrow> script_links e links categories
      | Inr (Some info) \<Rightarrow> script_links e links (categories @ [info]))"

fun engine_links :: "env \<Rightarrow> (pystr \<times> node) list \<Rightarrow> category_info list \<Rightarrow> error + category_info list" where
  "engine_links e [] categories = Inr categories"
| "engine_links e (hl # links) categories =
     (case engine_category e hl of
        Inl err \<Rightarrow> Inl err
      | Inr None \<Rightarrow> engine_links e links categories
      | Inr (Some info) \<Rightarrow> engine_links e links (categories @ [info]))"

definition parse_main_page :: "env \<Rightarrow> state \<Rightarrow> (error + category_info list) \<times> state" where
  "parse_main_page e s =
     (let s1 = emit (Print Fetching_main_page) s;
          (html, s2) = get_page e (base_url s1) None s1
      in if falsy html then (Inr [], s2)
         else if rejects_markup e (case html of Some h \<Rightarrow> h | None \<Rightarrow> [])
         then (Inl ParserRejectedMarkup, s2)
         else
           (let soup = BeautifulSoup e (case html of Some h \<Rightarrow> h | None \<Rightarrow> []);
                from_sidebar = dropWhile (\<lambda>t. \<not> is_sidebar t) (descendants soup)
            in if from_sidebar = [] then (Inr [], emit (Print Could_not_find_sidebar) s2)
               else
                 (case script_links e (section_links e (ascii ''Script'') from_sidebar) [] of
                    Inl err \<Rightarrow> (Inl err, s2)
                  | Inr scripts \<Rightarrow>
                      (case engine_links e (section_links e (ascii ''Engine'') from_sidebar) scripts of
                         Inl err \<Rightarrow> (Inl err, s2)
                       | Inr categories \<Rightarrow>
                           (Inr categories, emit (Print (Found_categories (length categories))) s2)))))"

text \<open>The query of a request for a category or a leaf; \<open>category_info['class']\<close> and
  \<open>category_info['function']\<close> raise \<open>KeyError\<close> when the key is missing.\<close>

definition request_params :: "category_info \<Rightarrow> error + params" where
  "request_params ci =
     (let ps = [(ascii ''version'', version_str (ci_version ci)), (ascii ''category'', ci_category ci)]
      in if ci_version ci = Script
         then (case ci_class ci of
                 None \<Rightarrow> Inl (KeyError (ascii ''class''))
               | Some c \<Rightarrow> Inr (ps @ [(ascii ''class'', c)]))
         else (case ci_function ci of
                 None \<Rightarrow> Inl (KeyError (ascii ''function''))
               | Some f \<Rightarrow> Inr (ps @ [(ascii ''function'', f)])))"

text \<open>
  One link of the nested list of the selected entry. The address of every link is
  parsed, so \<open>urlparse\<close> may raise \<open>ValueError\<close> on each.
\<close>

definition sub_info :: "env \<Rightarrow> category_info \<Rightarrow> pystr \<times> node \<Rightarrow> error + category_info option" where
  "sub_info e ci hl =
     (let href = fst hl; link = snd hl in
      if urlparse_raises e href then Inl ValueError
      else
        (let sub = \<lparr>ci_version = ci_version ci, ci_category = ci_category ci, ci_class = None,
                    ci_function = None, ci_name = strip e (get_text link),
                    ci_category_name = Some (ci_name ci)\<rparr>
         in if ci_version ci = Script \<and> parse_qs e href (ascii ''class'') \<noteq> None
            then Inr (Some (sub\<lparr>ci_class := parse_qs e href (ascii ''class'')\<rparr>))
            else if ci_version ci = Engine \<and> parse_qs e href (ascii ''function'') \<noteq> None
            then Inr (Some (sub\<lparr>ci_function := parse_qs e href (ascii ''function'')\<rparr>))
            else Inr None))"

text \<open>The loop over the links of the nested list; the first link that raises ends it.\<close>

fun sub_links ::
  "env \<Rightarrow> category_info \<Rightarrow> (pystr \<times> node) list \<Rightarrow> category_info list \<Rightarrow> error + category_info list" where
  "sub_links e ci [] subcategories = Inr subcategories"
| "sub_links e ci (hl # links) subcategories =
     (case sub_info e ci hl of
        Inl err \<Rightarrow> Inl err
      | Inr None \<Rightarrow> sub_links e ci links subcategories
      | Inr (Some sub) \<Rightarrow> sub_links e ci links (subcategories @ [sub]))"

text \<open>What \<open>get_subcategories\<close> makes of the page it fetched.\<close>

definition subcategories_of :: "env \<Rightarrow> category_info \<Rightarrow> node \<Rightarrow> error + category_info list" where
  "subcategories_of e ci soup =
     (case find is_sidebar (descendants soup) of
        None \<Rightarrow> Inr []
      | Some sidebar \<Rightarrow>
          (case (case find (\<lambda>t. is_tag (ascii ''li'') t \<and> has_class e (ascii ''selected'') t)
                         (descendants sidebar) of
                    None \<Rightarrow> Inr []
                  | Some selected_li \<Rightarrow>
                      (case find (is_tag (ascii ''ul'')) (descendants selected_li) of
                         None \<Rightarrow> Inr []
                       | Some nested_ul \<Rightarrow> sub_links e ci (find_all_a_href nested_ul) [])) of
             Inl err \<Rightarrow> Inl err
           | Inr subcategories \<Rightarrow> Inr (if subcategories = [] then [ci] else subcategories)))"

definition get_subcategories ::
  "env \<Rightarrow> category_info \<Rightarrow> state \<Rightarrow> (error + category_info list) \<times> state" where
  "get_subcategories e ci s =
     (let s1 = emit (Print (Fetching_subcategories (ci_name ci))) s in
      case request_params ci of
        Inl err \<Rightarrow> (Inl err, s1)
      | Inr ps \<Rightarrow>
          (let (html, s2) = get_page e (base_url s1) (Some ps) s1
           in if falsy html then (Inr [], s2)
              else if rejects_markup e (case html of Some h \<Rightarrow> h | None \<Rightarrow> [])
              then (Inl ParserRejectedMarkup, s2)
              else (subcategories_of e ci (BeautifulSoup e (case html of Some h \<Rightarrow> h | None \<Rightarrow> [])), s2)))"

section \<open>Content and markdown\<close>

text \<open>\<open>extract_content\<close>: \<open>#box5 > div.entry > div:nth-child(2)\<close>.\<close>

definition extract_content :: "'a unicode_db_scheme \<Rightarrow> node \<Rightarrow> node option" where
  "extract_content u soup =
     (case find (\<lambda>t. is_tag (ascii ''div'') t \<and> attr t (ascii ''id'') = Some (ascii ''box5''))
             (descendants soup) of
        None \<Rightarrow> None
      | Some box5 \<Rightarrow>
          (case find (\<lambda>t. is_tag (ascii ''div'') t \<and> has_class u (ascii ''entry'') t)
                  (descendants box5) of
             None \<Rightarrow> None
           | Some entry \<Rightarrow>
               (let content_divs = filter (is_tag (ascii ''div'')) (children entry)
                in if length content_divs < 2 then None else Some (content_divs ! 1))))"

text \<open>
  \<^verbatim>\<open>re.sub(r'\n{3,}', '\n\n', markdown)\<close>: every maximal run of three or more line feeds
  (code point 10) becomes two. \<open>collapse n s\<close> has read \<open>n\<close> line feeds of the current run.
\<close>

definition flush_newlines :: "nat \<Rightarrow> pystr" where
  "flush_newlines n = (if 3 \<le> n then [10, 10] else replicate n 10)"

fun collapse :: "nat \<Rightarrow> pystr \<Rightarrow> pystr" where
  "collapse n [] = flush_newlines n"
| "collapse n (c # cs) =
     (if c = 10 then collapse (Suc n) cs else flush_newlines n @ c # collapse 0 cs)"

definition re_sub_newlines :: "pystr \<Rightarrow> pystr" where
  "re_sub_newlines s = collapse 0 s"

definition html_to_markdown :: "env \<Rightarrow> node option \<Rightarrow> pystr" where
  "html_to_markdown e html_content =
     (case html_content of
        None \<Rightarrow> []
      | Some c \<Rightarrow> strip e (re_sub_newlines (h2t_handle e (str_node e c))))"

section \<open>Saving a page and keeping the manifest\<close>

text \<open>
  A Python dictionary keeps its keys in the order they were first stored: it is a list
  of pairs. \<open>dict_set\<close> is \<open>d[k] = v\<close>.
\<close>

definition dict_contains :: "'k \<Rightarrow> ('k \<times> 'v) list \<Rightarrow> bool" where
  "dict_contains k d = (map_of d k \<noteq> None)"

fun dict_set :: "'k \<Rightarrow> 'v \<Rightarrow> ('k \<times> 'v) list \<Rightarrow> ('k \<times> 'v) list" where
  "dict_set k v [] = [(k, v)]"
| "dict_set k v (kv # d) = (if fst kv = k then (k, v) # d else kv # dict_set k v d)"

text \<open>The list stored under a key, empty when the key has just been created.\<close>

definition dict_list :: "'k \<Rightarrow> ('k \<times> 'v list) list \<Rightarrow> 'v list" where
  "dict_list k d = (case map_of d k of None \<Rightarrow> [] | Some v \<Rightarrow> v)"

text \<open>
  \<open>_add_to_manifest\<close>. The version and the category are created empty when they are
  missing; \<open>file_path.relative_to(self.output_dir)\<close> raises \<open>ValueError\<close> for a path that
  is not below the output directory; then the item is appended and counted.
\<close>

definition add_to_manifest ::
  "version \<Rightarrow> pystr \<Rightarrow> pystr \<Rightarrow> path \<Rightarrow> state \<Rightarrow> (error + unit) \<times> state" where
  "add_to_manifest version category_name item_name file_path s =
     (let m = manifest s;
          vs1 = (if dict_contains version (versions m) then versions m
                 else dict_set version [] (versions m));
          cats1 = dict_list version vs1;
          cats2 = (if dict_contains category_name cats1 then cats1
                   else dict_set category_name [] cats1);
          vs2 = dict_set version cats2 vs1
      in if take (length (output_dir s)) file_path \<noteq> output_dir s
         then (Inl ValueError, s\<lparr>manifest := m\<lparr>versions := vs2\<rparr>\<rparr>)
         else
           (let relative_path = as_posix (drop (length (output_dir s)) file_path);
                items = dict_list category_name cats2 @
                          [\<lparr>i_name = item_name, i_path = relative_path\<rparr>];
                vs3 = dict_set version (dict_set category_name items cats2) vs2
            in (Inr (), s\<lparr>manifest := m\<lparr>versions := vs3, total_files := total_files m + 1\<rparr>\<rparr>)))"

definition display_category :: "category_info \<Rightarrow> pystr" where
  "display_category ci = (case ci_category_name ci of None \<Rightarrow> ci_name ci | Some c \<Rightarrow> c)"

text \<open>The text of a saved page: title, category, version, a rule, the content.\<close>

definition document :: "pystr \<Rightarrow> pystr \<Rightarrow> version \<Rightarrow> pystr \<Rightarrow> pystr" where
  "document item_name category_name version content =
     ascii ''# '' @ item_name @ [10, 10] @
     ascii ''**Category:** '' @ category_name @ [10] @
     ascii ''**Version:** '' @ version_str version @ [10, 10] @
     ascii ''---'' @ [10, 10] @
     content"

definition save_content :: "env \<Rightarrow> pystr \<Rightarrow> category_info \<Rightarrow> state \<Rightarrow> (error + path) \<times> state" where
  "save_content e content ci s =
     (let version = ci_version ci;
          category_name = display_category ci;
          item_name = ci_name ci;
          safe_category = safe_name e category_name;
          safe_item = safe_name e item_name;
          output_path = joinpath (joinpath (output_dir s) (version_str version)) safe_category
      in case mkdir_parents output_path (fs s) of
           Inl err \<Rightarrow> (Inl err, s)
         | Inr f1 \<Rightarrow>
             (let file_path = joinpath output_path (safe_item @ ascii ''.md'')
              in case open_write file_path (document item_name category_name version content)
                        (s\<lparr>fs := f1\<rparr>) of
                   (Inl err, s2) \<Rightarrow> (Inl err, s2)
                 | (Inr u, s2) \<Rightarrow>
                     (case add_to_manifest version category_name item_name file_path s2 of
                        (Inl err, s3) \<Rightarrow> (Inl err, s3)
                      | (Inr u, s3) \<Rightarrow> (Inr file_path, s3))))"

section \<open>The index\<close>

definition index_items :: "item list \<Rightarrow> pystr" where
  "index_items items =
     concat (map (\<lambda>it. ascii ''- ['' @ i_name it @ ascii ''](''  @ i_path it @ ascii '')'' @ [10])
                 (sort_key i_name items))"

definition index_categories :: "(pystr \<times> item list) list \<Rightarrow> pystr" where
  "index_categories cats =
     concat (map (\<lambda>category.
                    ascii ''### '' @ category @ ascii '' ('' @
                    str_of_nat (length (dict_list category cats)) @ ascii '' items)'' @ [10, 10] @
                    index_items (dict_list category cats) @ [10])
                 (sort (map fst cats)))"

definition sorted_versions :: "(version \<times> 'v) list \<Rightarrow> version list" where
  "sorted_versions vs = sort_key version_str (map fst vs)"

definition index_text :: "manifest \<Rightarrow> pystr" where
  "index_text m =
     ascii ''# FS25 Documentation Index'' @ [10, 10] @
     ascii ''**Generated:** '' @
       (case generated_at m of None \<Rightarrow> ascii ''None'' | Some t \<Rightarrow> t) @ [10] @
     ascii ''**Source:** '' @ source_url m @ [10] @
     ascii ''**Total Files:** '' @
       (if total_files m < 0 then ascii ''-'' else []) @ str_of_nat (nat \<bar>total_files m\<bar>) @ [10, 10] @
     ascii ''---'' @ [10, 10] @
     ascii ''## Table of Contents'' @ [10, 10] @
     concat (map (\<lambda>v. ascii ''- ['' @ upper (version_str v) @ ascii ''](#'' @ version_str v @
                        ascii '')'' @ [10])
                 (sorted_versions (versions m))) @
     [10] @ ascii ''---'' @ [10, 10] @
     concat (map (\<lambda>v. ascii ''## '' @ upper (version_str v) @ [10, 10] @
                        index_categories (dict_list v (versions m)) @ [10])
                 (sorted_versions (versions m)))"

definition index_path :: "state \<Rightarrow> path" where
  "index_path s = joinpath (output_dir s) (ascii ''INDEX.md'')"

definition manifest_path :: "state \<Rightarrow> path" where
  "manifest_path s = joinpath (output_dir s) (ascii ''manifest.json'')"

definition create_markdown_index :: "state \<Rightarrow> (error + unit) \<times> state" where
  "create_markdown_index s =
     (case open_write (index_path s) (index_text (manifest s)) s of
        (Inl err, s1) \<Rightarrow> (Inl err, s1)
      | (Inr u, s1) \<Rightarrow> (Inr (), emit (Print (Index_saved (index_path s))) s1))"

definition save_manifest :: "env \<Rightarrow> state \<Rightarrow> (error + unit) \<times> state" where
  "save_manifest e s =
     (let s1 = s\<lparr>manifest := (manifest s)\<lparr>generated_at := Some (now e)\<rparr>\<rparr>
      in case open_write (manifest_path s1) (json_dump e (manifest s1)) s1 of
           (Inl err, s2) \<Rightarrow> (Inl err, s2)
         | (Inr u, s2) \<Rightarrow> create_markdown_index (emit (Print (Manifest_saved (manifest_path s1))) s2))"

section \<open>Scraping\<close>

text \<open>The path \<open>scrape_page\<close> probes before it fetches anything.\<close>

definition probe_path :: "'a unicode_db_scheme \<Rightarrow> path \<Rightarrow> category_info \<Rightarrow> path" where
  "probe_path u out ci =
     joinpath (joinpath (joinpath out (version_str (ci_version ci)))
                        (safe_name u (display_category ci)))
              (safe_name u (ci_name ci) @ ascii ''.md'')"

definition scrape_page :: "env \<Rightarrow> category_info \<Rightarrow> state \<Rightarrow> (error + bool) \<times> state" where
  "scrape_page e ci s =
     (case request_params ci of
        Inl err \<Rightarrow> (Inl err, s)
      | Inr ps \<Rightarrow>
          (let item_name = ci_name ci;
               file_path = probe_path e (output_dir s) ci
           in if path_exists (fs s) file_path
              then (Inr True, emit (Print (Already_exists item_name)) s)
              else
                (let s1 = emit (Print (Scraping item_name)) s;
                     (html, s2) = get_page e (base_url s1) (Some ps) s1
                 in if falsy html then (Inr False, s2)
                    else if rejects_markup e (case html of Some h \<Rightarrow> h | None \<Rightarrow> [])
                    then (Inl ParserRejectedMarkup, s2)
                    else
                      (case extract_content e (BeautifulSoup e (case html of Some h \<Rightarrow> h | None \<Rightarrow> [])) of
                         None \<Rightarrow> (Inr False, emit (Print (No_content_found item_name)) s2)
                       | Some content_div \<Rightarrow>
                           (case save_content e (html_to_markdown e (Some content_div)) ci s2 of
                              (Inl err, s3) \<Rightarrow> (Inl err, s3)
                            | (Inr saved_path, s3) \<Rightarrow> (Inr True, emit (Print (Saved saved_path)) s3))))))"

text \<open>The inner loop of \<open>scrape_all\<close> over the leaves of one category, with the two
  counters \<open>(total_scraped, total_failed)\<close>.\<close>

definition tally :: "bool \<Rightarrow> int \<times> int \<Rightarrow> int \<times> int" where
  "tally ok totals = (if ok then (fst totals + 1, snd totals) else (fst totals, snd totals + 1))"

fun scrape_leaves ::
  "env \<Rightarrow> category_info list \<Rightarrow> int \<times> int \<Rightarrow> state \<Rightarrow> (error + int \<times> int) \<times> state" where
  "scrape_leaves e [] totals s = (Inr totals, s)"
| "scrape_leaves e (sub # subs) totals s =
     (case scrape_page e sub s of
        (Inl err, s1) \<Rightarrow> (Inl err, s1)
      | (Inr ok, s1) \<Rightarrow> scrape_leaves e subs (tally ok totals) s1)"

text \<open>One turn of the outer loop.\<close>

definition scrape_category ::
  "env \<Rightarrow> int \<Rightarrow> nat \<Rightarrow> category_info \<Rightarrow> int \<times> int \<Rightarrow> state \<Rightarrow> (error + int \<times> int) \<times> state" where
  "scrape_category e i n category totals s =
     (let s1 = emit (Print (Processing i n (ci_name category))) s in
      case get_subcategories e category s1 of
        (Inl err, s2) \<Rightarrow> (Inl err, s2)
      | (Inr subcategories, s2) \<Rightarrow>
          if subcategories = []
          then (case scrape_page e category (emit (Print No_subcategories_found) s2) of
                  (Inl err, s3) \<Rightarrow> (Inl err, s3)
                | (Inr ok, s3) \<Rightarrow> (Inr (tally ok totals), s3))
          else scrape_leaves e subcategories totals s2)"

fun scrape_categories ::
  "env \<Rightarrow> int \<Rightarrow> nat \<Rightarrow> category_info list \<Rightarrow> int \<times> int \<Rightarrow> state \<Rightarrow> (error + int \<times> int) \<times> state" where
  "scrape_categories e i n [] totals s = (Inr totals, s)"
| "scrape_categories e i n (category # rest) totals s =
     (case scrape_category e i n category totals s of
        (Inl err, s1) \<Rightarrow> (Inl err, s1)
      | (Inr totals1, s1) \<Rightarrow> scrape_categories e (i + 1) n rest totals1 s1)"

definition banner :: "state \<Rightarrow> state" where
  "banner s = emit (Print Banner_rule) (emit (Print Banner_title) (emit (Print Banner_rule) s))"

definition summary :: "int \<times> int \<Rightarrow> path \<Rightarrow> event list" where
  "summary totals out =
     [Print Banner_rule, Print Scraping_complete, Print (Successfully_scraped (fst totals)),
      Print (Failed (snd totals)), Print (Output_directory out), Print Banner_rule]"

definition scrape_all :: "env \<Rightarrow> state \<Rightarrow> (error + unit) \<times> state" where
  "scrape_all e s =
     (case parse_main_page e (banner s) of
        (Inl err, s1) \<Rightarrow> (Inl err, s1)
      | (Inr categories, s1) \<Rightarrow>
          if categories = [] then (Inr (), emit (Print Failed_to_parse_main_page) s1)
          else
            (case scrape_categories e 1 (length categories) categories (0, 0) s1 of
               (Inl err, s2) \<Rightarrow> (Inl err, s2)
             | (Inr totals, s2) \<Rightarrow>
                 (case save_manifest e (emit (Print Generating_manifest) s2) of
                    (Inl err, s3) \<Rightarrow> (Inl err, s3)
                  | (Inr u, s3) \<Rightarrow>
                      (Inr (), s3\<lparr>trace := trace s3 @ summary totals (output_dir s3)\<rparr>))))"

text \<open>\<open>main\<close>: a scraper with the default address and the directory \<open>output\<close>.\<close>

definition default_url :: pystr where
  "default_url = ascii ''https://gdn.giants-software.com/documentation_scripting_fs25.php''"

definition main :: "env \<Rightarrow> filesystem \<Rightarrow> (error + unit) \<times> state" where
  "main e f = scrape_all e (init default_url [ascii ''output''] f)"

section \<open>Notions the properties are stated with\<close>

text \<open>A leaf can be requested: it has the key its version asks for.\<close>

definition well_formed :: "category_info \<Rightarrow> bool" where
  "well_formed ci =
     (if ci_version ci = Script then ci_class ci \<noteq> None else ci_function ci \<noteq> None)"

text \<open>The link of a nested list carries the key of the category's version.\<close>

definition has_version_key :: "env \<Rightarrow> category_info \<Rightarrow> pystr \<times> node \<Rightarrow> bool" where
  "has_version_key e ci hl =
     (if ci_version ci = Script then parse_qs e (fst hl) (ascii ''class'') \<noteq> None
      else parse_qs e (fst hl) (ascii ''function'') \<noteq> None)"

text \<open>What a link gives when its address is parsed: nothing when that raises.\<close>

definition parsed :: "error + 'a option \<Rightarrow> 'a option" where
  "parsed r = (case r of Inl err \<Rightarrow> None | Inr x \<Rightarrow> x)"

text \<open>
  The exceptions a page of the site can raise in a run: the file system refuses a
  directory or a file, \<open>urlparse\<close> refuses an address, the parser refuses the markup.
\<close>

definition raised_by_page :: "error \<Rightarrow> bool" where
  "raised_by_page err = (is_OSError err \<or> err = ValueError \<or> err = ParserRejectedMarkup)"

text \<open>Counting in a trace: pages saved, pages found on disk, files written at a path.\<close>

fun is_saved :: "event \<Rightarrow> bool" where
  "is_saved (Print (Saved p)) = True"
| "is_saved ev = False"

fun is_skipped :: "event \<Rightarrow> bool" where
  "is_skipped (Print (Already_exists n)) = True"
| "is_skipped ev = False"

fun is_write_to :: "path \<Rightarrow> event \<Rightarrow> bool" where
  "is_write_to p (Write_file q text) = (q = p)"
| "is_write_to p ev = False"

fun is_write :: "event \<Rightarrow> bool" where
  "is_write (Write_file q text) = True"
| "is_write ev = False"

definition n_saved :: "event list \<Rightarrow> nat" where
  "n_saved tr = length (filter is_saved tr)"

definition n_skipped :: "event list \<Rightarrow> nat" where
  "n_skipped tr = length (filter is_skipped tr)"

definition n_writes_to :: "path \<Rightarrow> event list \<Rightarrow> nat" where
  "n_writes_to p tr = length (filter (is_write_to p) tr)"

definition n_writes :: "event list \<Rightarrow> nat" where
  "n_writes tr = length (filter is_write tr)"

text \<open>The number of items the manifest lists, over all versions and categories.\<close>

definition category_count :: "(pystr \<times> item list) list \<Rightarrow> nat" where
  "category_count cats = sum_list (map (\<lambda>kv. length (snd kv)) cats)"

definition manifest_count :: "manifest \<Rightarrow> nat" where
  "manifest_count m = sum_list (map (\<lambda>kv. category_count (snd kv)) (versions m))"

definition consistent :: "manifest \<Rightarrow> bool" where
  "consistent m = (total_files m = int (manifest_count m))"

text \<open>
  A text without three line feeds in a row, read after \<open>k\<close> line feeds.
\<close>

fun no_triple :: "nat \<Rightarrow> pystr \<Rightarrow> bool" where
  "no_triple k [] = True"
| "no_triple k (c # cs) = (if c = 10 then k < 2 \<and> no_triple (Suc k) cs else no_triple 0 cs)"

text \<open>
  The file name as the specification words it: the characters that are not alphanumeric
  are stripped (the space stays, to be replaced), and each space becomes the separator.
\<close>

definition spec_safe_name :: "'a unicode_db_scheme \<Rightarrow> pystr \<Rightarrow> pystr" where
  "spec_safe_name u s = replace_space (filter (\<lambda>c. isalnum u c \<or> c = 32) s)"

text \<open>
  Two relations between the state before and after a step. A \<open>quiet\<close> step may only print,
  sleep and send requests. A \<open>booked\<close> step may also save pages, and keeps the books: the
  manifest stays consistent, every page it counts is a page announced as saved, every file
  written is such a page, and neither the manifest file nor the index is written.
\<close>

definition quiet :: "state \<Rightarrow> state \<Rightarrow> bool" where
  "quiet s s' =
     (output_dir s' = output_dir s \<and> base_url s' = base_url s \<and>
      manifest s' = manifest s \<and> fs s' = fs s \<and>
      n_saved (trace s') = n_saved (trace s) \<and> n_skipped (trace s') = n_skipped (trace s) \<and>
      filter is_write (trace s') = filter is_write (trace s))"

definition booked :: "state \<Rightarrow> state \<Rightarrow> bool" where
  "booked s s' =
     (output_dir s' = output_dir s \<and> base_url s' = base_url s \<and>
      (consistent (manifest s) \<longrightarrow> consistent (manifest s')) \<and>
      total_files (manifest s') + int (n_saved (trace s)) =
        total_files (manifest s) + int (n_saved (trace s')) \<and>
      n_writes (trace s') + n_saved (trace s) = n_writes (trace s) + n_saved (trace s') \<and>
      n_writes_to (manifest_path s) (trace s') = n_writes_to (manifest_path s) (trace s) \<and>
      n_writes_to (index_path s) (trace s') = n_writes_to (index_path s) (trace s))"

section \<open>A small site\<close>

text \<open>
  A world to run the program in: a root page with one script category, the page of that
  category with two links in the nested list of the selected entry, the second without a
  \<open>class\<close>, a leaf page with content and a page without, and a fragment with five
  line breaks in a row, each of which the converter writes as two spaces and a line feed
  (with no wrapping, the converter ends its text with one line feed).
  The Unicode tables of this world know no letter and no space beyond ASCII.
\<close>

definition doc :: "node list \<Rightarrow> node" where
  "doc cs = Tag (ascii ''[document]'') [] cs"

definition root_html :: pystr where
  "root_html = ascii ''<div style=width:200px;float:left><h3 class=version>Script</h3><ul><li><a href=?version=script&category=1&class=10>Vehicles</a></li></ul></div>''"

definition vehicles_link :: node where
  "vehicles_link =
     Tag (ascii ''a'') [(ascii ''href'', ascii ''?version=script&category=1&class=10'')]
       [NavigableString (ascii ''Vehicles'')]"

definition root_soup :: node where
  "root_soup =
     doc [Tag (ascii ''div'') [(ascii ''style'', ascii ''width:200px;float:left'')]
            [Tag (ascii ''h3'') [(ascii ''class'', ascii ''version'')] [NavigableString (ascii ''Script'')],
             Tag (ascii ''ul'') [] [Tag (ascii ''li'') [] [vehicles_link]]]]"

definition category_html :: pystr where
  "category_html = ascii ''<div style=width:200px;float:left><ul><li class=selected><a href=?version=script&category=1&class=10>Vehicles</a><ul><li><a href=?version=script&category=1&class=11>Car</a></li><li><a href=?version=script&category=1>Truck</a></li></ul></li></ul></div>''"

definition car_link :: node where
  "car_link =
     Tag (ascii ''a'') [(ascii ''href'', ascii ''?version=script&category=1&class=11'')]
       [NavigableString (ascii ''Car'')]"

definition truck_link :: node where
  "truck_link =
     Tag (ascii ''a'') [(ascii ''href'', ascii ''?version=script&category=1'')]
       [NavigableString (ascii ''Truck'')]"

definition nested_ul :: node where
  "nested_ul = Tag (ascii ''ul'') [] [Tag (ascii ''li'') [] [car_link], Tag (ascii ''li'') [] [truck_link]]"

definition selected_entry :: node where
  "selected_entry = Tag (ascii ''li'') [(ascii ''class'', ascii ''selected'')] [vehicles_link, nested_ul]"

definition category_sidebar :: node where
  "category_sidebar =
     Tag (ascii ''div'') [(ascii ''style'', ascii ''width:200px;float:left'')]
       [Tag (ascii ''ul'') [] [selected_entry]]"

definition category_soup :: node where
  "category_soup = doc [category_sidebar]"

definition leaf_html :: pystr where
  "leaf_html = ascii ''<div id=box5><div class=entry><div>menu</div><div>Hello</div></div></div>''"

definition hello_div :: node where
  "hello_div = Tag (ascii ''div'') [] [NavigableString (ascii ''Hello'')]"

definition leaf_soup :: node where
  "leaf_soup =
     doc [Tag (ascii ''div'') [(ascii ''id'', ascii ''box5'')]
            [Tag (ascii ''div'') [(ascii ''class'', ascii ''entry'')]
               [Tag (ascii ''div'') [] [NavigableString (ascii ''menu'')], hello_div]]]"

definition gone_html :: pystr where
  "gone_html = ascii ''<p>gone</p>''"

definition gone_soup :: node where
  "gone_soup = doc [Tag (ascii ''p'') [] [NavigableString (ascii ''gone'')]]"

definition breaks_div :: node where
  "breaks_div =
     Tag (ascii ''div'') []
       [NavigableString (ascii ''x''), Tag (ascii ''br'') [] [], Tag (ascii ''br'') [] [],
        Tag (ascii ''br'') [] [], Tag (ascii ''br'') [] [], Tag (ascii ''br'') [] [],
        NavigableString (ascii ''y'')]"

definition breaks_markdown :: pystr where
  "breaks_markdown =
     ascii ''x  '' @ [10] @ ascii ''  '' @ [10] @ ascii ''  '' @ [10] @ ascii ''  '' @ [10] @
     ascii ''  '' @ [10] @ ascii ''y''"

definition site_parser :: "pystr \<Rightarrow> node" where
  "site_parser h =
     (if h = root_html then root_soup
      else if h = category_html then category_soup
      else if h = leaf_html then leaf_soup
      else if h = gone_html then gone_soup
      else doc [])"

definition site_parse_qs :: "pystr \<Rightarrow> pystr \<Rightarrow> pystr option" where
  "site_parse_qs href =
     (if href = ascii ''?version=script&category=1&class=10''
      then map_of [(ascii ''version'', ascii ''script''), (ascii ''category'', ascii ''1''),
                   (ascii ''class'', ascii ''10'')]
      else if href = ascii ''?version=script&category=1&class=11''
      then map_of [(ascii ''version'', ascii ''script''), (ascii ''category'', ascii ''1''),
                   (ascii ''class'', ascii ''11'')]
      else if href = ascii ''?version=script&category=1''
      then map_of [(ascii ''version'', ascii ''script''), (ascii ''category'', ascii ''1'')]
      else Map.empty)"

text \<open>The server answers the \<open>k\<close>-th request with the \<open>k\<close>-th entry of a list, and not at
  all once the list is used up.\<close>

definition serve :: "response list \<Rightarrow> nat \<Rightarrow> pystr \<Rightarrow> params option \<Rightarrow> response" where
  "serve pages k url ps = (if k < length pages then pages ! k else Conn_error (ascii ''timed out''))"

definition site :: "response list \<Rightarrow> env" where
  "site pages =
     \<lparr>uni_space = (\<lambda>c. False), uni_alnum = (\<lambda>c. False),
      BeautifulSoup = site_parser,
      rejects_markup = (\<lambda>h. h = ascii ''<![foo]>''),
      str_node = (\<lambda>t. if t = hello_div then ascii ''<div>Hello</div>''
                       else if t = breaks_div then ascii ''<div>x<br/><br/><br/><br/><br/>y</div>''
                       else []),
      h2t_handle = (\<lambda>h. if h = ascii ''<div>Hello</div>'' then ascii ''Hello'' @ [10]
                         else if h = ascii ''<div>x<br/><br/><br/><br/><br/>y</div>''
                         then breaks_markdown @ [10]
                         else []),
      urlparse_raises = (\<lambda>h. h = ascii ''//[?class=1''),
      parse_qs = site_parse_qs,
      json_dump = (\<lambda>m. ascii ''{}''),
      http = serve pages,
      now = ascii ''2025-01-01T00:00:00''\<rparr>"

definition vehicles :: category_info where
  "vehicles =
     \<lparr>ci_version = Script, ci_category = ascii ''1'', ci_class = Some (ascii ''10''),
      ci_function = None, ci_name = ascii ''Vehicles'', ci_category_name = None\<rparr>"

definition car :: category_info where
  "car =
     \<lparr>ci_version = Script, ci_category = ascii ''1'', ci_class = Some (ascii ''11''),
      ci_function = None, ci_name = ascii ''Car'', ci_category_name = Some (ascii ''Vehicles'')\<rparr>"

text \<open>Directory trees: nothing there; the output directory with the page of the category
  saved by an earlier run.\<close>

definition no_files :: filesystem where
  "no_files = Map.empty"

definition earlier_run :: filesystem where
  "earlier_run =
     [[ascii ''output''] \<mapsto> Dir,
      [ascii ''output'', ascii ''script''] \<mapsto> Dir,
      [ascii ''output'', ascii ''script'', ascii ''Vehicles''] \<mapsto> Dir,
      [ascii ''output'', ascii ''script'', ascii ''Vehicles'', ascii ''Vehicles.md''] \<mapsto> File (ascii ''old'')]"

section \<open>Properties\<close>

subsection \<open>Trimming\<close>

lemma isspace_95 [simp]: "\<not> isspace u 95" by (simp add: isspace_def)
lemma isspace_32 [simp]: "isspace u 32" by (simp add: isspace_def)
lemma isword_95 [simp]: "isword u 95" by (simp add: isword_def)

lemma rstrip_Cons:
  "rstrip u (a # y) = (if rstrip u y = [] \<and> isspace u a then [] else a # rstrip u y)"
  by (auto simp: rstrip_def dropWhile_append dropWhile_eq_Nil_conv)

lemma rstrip_Nil [simp]: "rstrip u [] = []" by (simp add: rstrip_def)

lemma rstrip_last: "rstrip u y \<noteq> [] \<Longrightarrow> \<not> isspace u (last (rstrip u y))"
  unfolding rstrip_def by (simp add: last_rev hd_dropWhile)

lemma rstrip_hd: "rstrip u y \<noteq> [] \<Longrightarrow> hd (rstrip u y) = hd y"
  by (cases y) (auto simp: rstrip_Cons split: if_splits)

lemma strip_ends:
  "strip u s \<noteq> [] \<Longrightarrow> \<not> isspace u (hd (strip u s)) \<and> \<not> isspace u (last (strip u s))"
  unfolding strip_def
  by (metis rstrip_hd rstrip_last lstrip_def hd_dropWhile rstrip_Nil)

lemma rstrip_fixed: "s \<noteq> [] \<Longrightarrow> \<not> isspace u (last s) \<Longrightarrow> rstrip u s = s"
  unfolding rstrip_def by (cases "rev s") (auto simp: last_rev)

lemma strip_fixed:
  "s = [] \<or> (\<not> isspace u (hd s) \<and> \<not> isspace u (last s)) \<Longrightarrow> strip u s = s"
  unfolding strip_def lstrip_def
  by (cases s) (auto simp: rstrip_fixed)

lemma set_rstrip: "set (rstrip u s) \<subseteq> set s"
  unfolding rstrip_def by (metis set_dropWhileD set_rev subsetI)

lemma set_strip: "set (strip u s) \<subseteq> set s"
  unfolding strip_def lstrip_def using set_rstrip set_dropWhileD by fastforce

lemma trim_unique:
  assumes "s = lead @ core @ trail"
    and "\<forall>c \<in> set lead. isspace u c" and "\<forall>c \<in> set trail. isspace u c"
    and "core = [] \<or> (\<not> isspace u (hd core) \<and> \<not> isspace u (last core))"
  shows "strip u s = core"
proof (cases "core = []")
  case True
  then have "\<forall>c \<in> set s. isspace u c"
    using assms(1,2,3) by auto
  then have "lstrip u s = []"
    by (simp add: lstrip_def dropWhile_eq_Nil_conv)
  then show ?thesis
    using True by (simp add: strip_def)
next
  case False
  then have ends: "\<not> isspace u (hd core)" "\<not> isspace u (last core)"
    using assms(4) by simp_all
  have "lstrip u s = core @ trail"
    unfolding lstrip_def assms(1)
    using assms(2) False ends(1) by (cases core) (simp_all add: dropWhile_append3 dropWhile_append2)
  moreover have "rstrip u (core @ trail) = core"
  proof -
    have "dropWhile (isspace u) (rev trail @ rev core) = dropWhile (isspace u) (rev core)"
      using assms(3) by (intro dropWhile_append2) simp
    moreover have "dropWhile (isspace u) (rev core) = rev core"
      using False ends(2) by (cases "rev core") simp_all
    ultimately show ?thesis
      by (simp add: rstrip_def)
  qed
  ultimately show ?thesis
    by (simp add: strip_def)
qed

lemma trim_exists:
  "\<exists>lead core trail. s = lead @ core @ trail \<and>
     (\<forall>c \<in> set lead. isspace u c) \<and> (\<forall>c \<in> set trail. isspace u c) \<and>
     (core = [] \<or> (\<not> isspace u (hd core) \<and> \<not> isspace u (last core)))"
proof -
  define lead where "lead = takeWhile (isspace u) s"
  define trail where "trail = rev (takeWhile (isspace u) (rev (lstrip u s)))"
  have 1: "s = lead @ lstrip u s"
    by (simp add: lead_def lstrip_def)
  have 2: "lstrip u s = strip u s @ trail"
    unfolding strip_def rstrip_def trail_def
    by (metis rev_append rev_rev_ident takeWhile_dropWhile_id)
  have 3: "\<forall>c \<in> set lead. isspace u c"
    unfolding lead_def by (auto dest: set_takeWhileD)
  have 4: "\<forall>c \<in> set trail. isspace u c"
    unfolding trail_def by (auto dest: set_takeWhileD)
  have 5: "strip u s = [] \<or> (\<not> isspace u (hd (strip u s)) \<and> \<not> isspace u (last (strip u s)))"
    using strip_ends [of u s] by blast
  show ?thesis
    using 1 2 3 4 5 by (metis append_assoc)
qed

lemma safe_name_idem: "safe_name u (safe_name u s) = safe_name u s"
proof -
  define t where "t = strip u (re_sub_unsafe u s)"
  define r where "r = replace_space t"
  have kept_t: "\<forall>c \<in> set t. isword u c \<or> isspace u c \<or> c = 45"
    using set_strip[of u "re_sub_unsafe u s"] by (auto simp: t_def re_sub_unsafe_def)
  have kept_r: "\<forall>c \<in> set r. isword u c \<or> isspace u c \<or> c = 45"
    using kept_t by (auto simp: r_def replace_space_def)
  have 1: "re_sub_unsafe u r = r"
    unfolding re_sub_unsafe_def using kept_r by (simp add: filter_id_conv)
  have ends_t: "t \<noteq> [] \<Longrightarrow> \<not> isspace u (hd t) \<and> \<not> isspace u (last t)"
    unfolding t_def by (rule strip_ends)
  have "r = [] \<or> (\<not> isspace u (hd r) \<and> \<not> isspace u (last r))"
  proof (cases "t = []")
    case True then show ?thesis by (simp add: r_def replace_space_def)
  next
    case False
    with ends_t have "\<not> isspace u (hd t)" "\<not> isspace u (last t)" by auto
    with False show ?thesis
      by (auto simp: r_def replace_space_def hd_map last_map)
  qed
  then have 2: "strip u r = r" by (rule strip_fixed)
  have 3: "replace_space r = r"
    by (simp add: r_def replace_space_def)
  show ?thesis
    using 1 2 3 by (simp add: safe_name_def r_def t_def)
qed

subsection \<open>File names and paths\<close>

lemma save_content_path:
  "save_content e content ci s = (Inr p, s') \<Longrightarrow> p = probe_path e (output_dir s) ci"
  by (auto simp: save_content_def probe_path_def Let_def split: sum.splits prod.splits)

lemma probe_path_names:
  "ci_version c1 = ci_version c2 \<Longrightarrow> display_category c1 = display_category c2 \<Longrightarrow> ci_name c1 = ci_name c2
    \<Longrightarrow> probe_path u out c1 = probe_path u out c2"
  by (simp add: probe_path_def)


lemmas str_defs = safe_name_def re_sub_unsafe_def strip_def lstrip_def rstrip_def replace_space_def
      isword_def isalnum_def isspace_def ascii_def joinpath_def

lemma probe_car: "probe_path (site pages) [ascii ''output''] car =
   [ascii ''output'', ascii ''script'', ascii ''Vehicles'', ascii ''Car.md'']"
  by (simp add: probe_path_def car_def display_category_def str_defs site_def)

lemma save_car:
  "fst (save_content (site pages) (ascii ''Hello'') car (init default_url [ascii ''output''] no_files))
     = Inr [ascii ''output'', ascii ''script'', ascii ''Vehicles'', ascii ''Car.md'']"
  by (simp add: save_content_def Let_def car_def display_category_def init_def str_defs site_def
       mkdir_parents_def no_files_def open_write_def is_dir_def add_to_manifest_def emit_def)

text \<open>
  C4. Making a name safe is idempotent, and the path of a page is a function of its
  version and its two names alone: \<open>scrape_page\<close> probes the very path at which
  \<open>save_content\<close> writes, whatever the state of the run.
\<close>

theorem safe_name_idempotent_path_deterministic:
  "safe_name u (safe_name u n) = safe_name u n \<and>
   (ci_version c1 = ci_version c2 \<and> display_category c1 = display_category c2 \<and>
    ci_name c1 = ci_name c2 \<longrightarrow> probe_path u out c1 = probe_path u out c2) \<and>
   (save_content e content ci s = (Inr p, s') \<longrightarrow> p = probe_path e (output_dir s) ci)"
  using safe_name_idem probe_path_names save_content_path by blast

theorem safe_name_idempotent_path_deterministic_witness:
  "safe_name (site []) (safe_name (site []) (ascii '' Gear-box (2)! '')) =
     safe_name (site []) (ascii '' Gear-box (2)! '') \<and>
   probe_path (site []) [ascii ''output''] car =
     probe_path (site []) [ascii ''output''] (car\<lparr>ci_category := ascii ''2''\<rparr>) \<and>
   fst (save_content (site []) (ascii ''Hello'') car (init default_url [ascii ''output''] no_files)) =
     Inr [ascii ''output'', ascii ''script'', ascii ''Vehicles'', ascii ''Car.md''] \<and>
   [ascii ''output'', ascii ''script'', ascii ''Vehicles'', ascii ''Car.md''] =
     probe_path (site []) [ascii ''output''] car"
  using safe_name_idempotent_path_deterministic
          [of "site []" "ascii '' Gear-box (2)! ''" car "car\<lparr>ci_category := ascii ''2''\<rparr>"
              "[ascii ''output'']" "site []" "ascii ''Hello''" car
              "init default_url [ascii ''output''] no_files"
              "[ascii ''output'', ascii ''script'', ascii ''Vehicles'', ascii ''Car.md'']"
              "snd (save_content (site []) (ascii ''Hello'') car (init default_url [ascii ''output''] no_files))"]
        save_car [of "[]"]
  by (simp add: prod_eq_iff display_category_def init_def car_def)

lemma probe_path_form:
  "probe_path u out ci =
     out @ [version_str (ci_version ci)] @
     (if safe_name u (display_category ci) = [] then [] else [safe_name u (display_category ci)]) @
     [safe_name u (ci_name ci) @ ascii ''.md'']"
  by (cases "ci_version ci") (simp_all add: probe_path_def joinpath_def ascii_def)

text \<open>
  C3, as the specification words it, fails: a hyphen is not alphanumeric, and it is kept.
\<close>

theorem path_keeps_hyphen_counterexample:
  "probe_path (site []) [ascii ''output''] (car\<lparr>ci_name := ascii ''Gear-box''\<rparr>) =
     [ascii ''output'', ascii ''script'', ascii ''Vehicles'', ascii ''Gear-box.md''] \<and>
   spec_safe_name (site []) (ascii ''Gear-box'') = ascii ''Gearbox'' \<and>
   \<not> isalnum (site []) 45"
  by (simp add: probe_path_def car_def display_category_def str_defs site_def spec_safe_name_def)

text \<open>
  C3, amended. The path of a page is the output directory, the version, the safe name of
  the category (no component when that name is empty) and the safe name of the item with
  \<open>.md\<close>. The safe name of a name is what is left when every character that is not a
  word character (alphanumeric or underscore), white space or the hyphen is deleted, the
  white space at the two ends is trimmed, and each space in between becomes an underscore:
  what the deletion leaves splits into leading white space, a core that neither begins nor
  ends with white space, and trailing white space, and the safe name is the core with its
  spaces replaced.
\<close>

theorem output_path_form:
  "probe_path u out ci =
     out @ [version_str (ci_version ci)] @
     (if safe_name u (display_category ci) = [] then [] else [safe_name u (display_category ci)]) @
     [safe_name u (ci_name ci) @ ascii ''.md''] \<and>
   (\<exists>lead core trail.
      filter (\<lambda>c. isword u c \<or> isspace u c \<or> c = 45) n = lead @ core @ trail \<and>
      (\<forall>c \<in> set lead. isspace u c) \<and> (\<forall>c \<in> set trail. isspace u c) \<and>
      (core = [] \<or> (\<not> isspace u (hd core) \<and> \<not> isspace u (last core)))) \<and>
   (filter (\<lambda>c. isword u c \<or> isspace u c \<or> c = 45) n = lead @ core @ trail \<and>
    (\<forall>c \<in> set lead. isspace u c) \<and> (\<forall>c \<in> set trail. isspace u c) \<and>
    (core = [] \<or> (\<not> isspace u (hd core) \<and> \<not> isspace u (last core)))
      \<longrightarrow> safe_name u n = map (\<lambda>c. if c = 32 then 95 else c) core)"
proof (intro conjI impI)
  show "probe_path u out ci =
     out @ [version_str (ci_version ci)] @
     (if safe_name u (display_category ci) = [] then [] else [safe_name u (display_category ci)]) @
     [safe_name u (ci_name ci) @ ascii ''.md'']"
    by (rule probe_path_form)
  show "\<exists>lead core trail.
      filter (\<lambda>c. isword u c \<or> isspace u c \<or> c = 45) n = lead @ core @ trail \<and>
      (\<forall>c \<in> set lead. isspace u c) \<and> (\<forall>c \<in> set trail. isspace u c) \<and>
      (core = [] \<or> (\<not> isspace u (hd core) \<and> \<not> isspace u (last core)))"
    by (rule trim_exists)
next
  assume "filter (\<lambda>c. isword u c \<or> isspace u c \<or> c = 45) n = lead @ core @ trail \<and>
    (\<forall>c \<in> set lead. isspace u c) \<and> (\<forall>c \<in> set trail. isspace u c) \<and>
    (core = [] \<or> (\<not> isspace u (hd core) \<and> \<not> isspace u (last core)))"
  then have "strip u (filter (\<lambda>c. isword u c \<or> isspace u c \<or> c = 45) n) = core"
    using trim_unique [of "filter (\<lambda>c. isword u c \<or> isspace u c \<or> c = 45) n" lead core trail u]
    by blast
  then show "safe_name u n = map (\<lambda>c. if c = 32 then 95 else c) core"
    by (simp add: safe_name_def re_sub_unsafe_def replace_space_def)
qed

theorem output_path_form_witness:
  "probe_path (site []) [ascii ''output''] (car\<lparr>ci_name := ascii '' A/B.. x ''\<rparr>) =
     [ascii ''output'', ascii ''script'', ascii ''Vehicles'', ascii ''AB_x.md''] \<and>
   safe_name (site []) (ascii '' A/B.. x '') = ascii ''AB_x''"
proof -
  let ?ci = "car\<lparr>ci_name := ascii '' A/B.. x ''\<rparr>"
  have parts: "filter (\<lambda>c. isword (site []) c \<or> isspace (site []) c \<or> c = 45) (ascii '' A/B.. x '') =
                 ascii '' '' @ ascii ''AB x'' @ ascii '' '' \<and>
               (\<forall>c \<in> set (ascii '' ''). isspace (site []) c) \<and>
               (\<forall>c \<in> set (ascii '' ''). isspace (site []) c) \<and>
               (ascii ''AB x'' = [] \<or>
                (\<not> isspace (site []) (hd (ascii ''AB x'')) \<and> \<not> isspace (site []) (last (ascii ''AB x''))))"
    by (simp add: ascii_def isword_def isalnum_def isspace_def site_def)
  note form = output_path_form [of "site []" "[ascii ''output'']" ?ci "ascii '' A/B.. x ''"
                                   "ascii '' ''" "ascii ''AB x''" "ascii '' ''"]
  have "safe_name (site []) (ascii '' A/B.. x '') =
          map (\<lambda>c. if c = 32 then 95 else c) (ascii ''AB x'')"
    using form parts by blast
  then have name: "safe_name (site []) (ascii '' A/B.. x '') = ascii ''AB_x''"
    by (simp add: ascii_def)
  have category: "safe_name (site []) (display_category ?ci) = ascii ''Vehicles''"
    by (simp add: car_def display_category_def str_defs site_def)
  have "probe_path (site []) [ascii ''output''] ?ci =
     [ascii ''output''] @ [version_str (ci_version ?ci)] @
     (if safe_name (site []) (display_category ?ci) = [] then []
      else [safe_name (site []) (display_category ?ci)]) @
     [safe_name (site []) (ci_name ?ci) @ ascii ''.md'']"
    using form by (rule conjunct1)
  then show ?thesis
    using name category by (simp add: car_def ascii_def)
qed

subsection \<open>Pages that are there already\<close>

lemma request_params_well_formed:
  "well_formed ci \<Longrightarrow> \<exists>ps. request_params ci = Inr ps"
  by (auto simp: well_formed_def request_params_def Let_def split: option.splits if_splits)

lemma request_params_KeyError:
  "request_params ci = Inl err \<Longrightarrow> \<not> well_formed ci"
  using request_params_well_formed by fastforce

text \<open>
  C1. A leaf whose file is on disk is not fetched: \<open>scrape_page\<close> prints that the page
  exists, answers \<open>True\<close>, and changes nothing else: no request, no sleep, no write, the
  same manifest, the same directory tree.
\<close>

theorem scrape_page_skips_existing:
  "well_formed ci \<and> path_exists (fs s) (probe_path e (output_dir s) ci) \<longrightarrow>
     scrape_page e ci s = (Inr True, s\<lparr>trace := trace s @ [Print (Already_exists (ci_name ci))]\<rparr>) \<and>
     n_requests (trace (snd (scrape_page e ci s))) = n_requests (trace s) \<and>
     manifest (snd (scrape_page e ci s)) = manifest s \<and>
     fs (snd (scrape_page e ci s)) = fs s"
proof (intro impI)
  assume a: "well_formed ci \<and> path_exists (fs s) (probe_path e (output_dir s) ci)"
  then obtain ps where "request_params ci = Inr ps"
    using request_params_well_formed by blast
  with a have "scrape_page e ci s = (Inr True, s\<lparr>trace := trace s @ [Print (Already_exists (ci_name ci))]\<rparr>)"
    by (simp add: scrape_page_def emit_def)
  then show "scrape_page e ci s = (Inr True, s\<lparr>trace := trace s @ [Print (Already_exists (ci_name ci))]\<rparr>) \<and>
     n_requests (trace (snd (scrape_page e ci s))) = n_requests (trace s) \<and>
     manifest (snd (scrape_page e ci s)) = manifest s \<and>
     fs (snd (scrape_page e ci s)) = fs s"
    by (simp add: n_requests_def)
qed

lemma probe_vehicles: "probe_path (site pages) [ascii ''output''] vehicles =
   [ascii ''output'', ascii ''script'', ascii ''Vehicles'', ascii ''Vehicles.md'']"
  by (simp add: probe_path_def vehicles_def display_category_def str_defs site_def)

theorem scrape_page_skips_existing_witness:
  "well_formed vehicles \<and>
   path_exists earlier_run (probe_path (site []) [ascii ''output''] vehicles) \<and>
   fst (scrape_page (site []) vehicles (init default_url [ascii ''output''] earlier_run)) = Inr True \<and>
   trace (snd (scrape_page (site []) vehicles (init default_url [ascii ''output''] earlier_run))) =
     [Print (Already_exists (ascii ''Vehicles''))] \<and>
   manifest (snd (scrape_page (site []) vehicles (init default_url [ascii ''output''] earlier_run))) =
     manifest (init default_url [ascii ''output''] earlier_run)"
proof -
  have wf: "well_formed vehicles"
    by (simp add: well_formed_def vehicles_def)
  have ex: "path_exists earlier_run (probe_path (site []) [ascii ''output''] vehicles)"
    by (simp add: probe_vehicles path_exists_def earlier_run_def)
  show ?thesis
    using wf ex
      scrape_page_skips_existing [of vehicles "init default_url [ascii ''output''] earlier_run" "site []"]
    by (simp add: init_def vehicles_def)
qed

subsection \<open>Fetching a page\<close>

text \<open>
  C7. \<open>get_page\<close> sleeps half a second, sends exactly one request with a timeout of 30
  seconds, and returns: the body when the server answers with a status outside 400 to
  599, and otherwise \<open>None\<close> after printing the error. It touches nothing but the trace, and
  it has no other outcome, so no error leaves it and nothing is sent twice.
\<close>

theorem get_page_contract:
  "get_page e url ps s =
     (case http e (n_requests (trace s)) url ps of
        Conn_error msg \<Rightarrow>
          (None, s\<lparr>trace := trace s @ [Sleep_ms 500, Http_get url ps 30,
                                         Print (Error_fetching url (Conn_error msg))]\<rparr>)
      | Http_response status body \<Rightarrow>
          if 400 \<le> status \<and> status < 600
          then (None, s\<lparr>trace := trace s @ [Sleep_ms 500, Http_get url ps 30,
                                              Print (Error_fetching url (Http_response status body))]\<rparr>)
          else (Some body, s\<lparr>trace := trace s @ [Sleep_ms 500, Http_get url ps 30]\<rparr>)) \<and>
   n_requests (trace (snd (get_page e url ps s))) = n_requests (trace s) + 1"
  by (auto simp: get_page_def emit_def Let_def n_requests_def split: response.splits)

theorem get_page_contract_witness:
  "get_page (site [Http_response 200 root_html, Http_response 404 gone_html]) default_url None
     (init default_url [ascii ''output''] no_files) =
     (Some root_html,
      (init default_url [ascii ''output''] no_files)
        \<lparr>trace := [Sleep_ms 500, Http_get default_url None 30]\<rparr>) \<and>
   get_page (site [Http_response 200 root_html, Http_response 404 gone_html]) default_url None
     ((init default_url [ascii ''output''] no_files)\<lparr>trace := [Sleep_ms 500, Http_get default_url None 30]\<rparr>) =
     (None,
      (init default_url [ascii ''output''] no_files)
        \<lparr>trace := [Sleep_ms 500, Http_get default_url None 30, Sleep_ms 500, Http_get default_url None 30,
                   Print (Error_fetching default_url (Http_response 404 gone_html))]\<rparr>)"
  using get_page_contract [of "site [Http_response 200 root_html, Http_response 404 gone_html]" default_url None
          "init default_url [ascii ''output''] no_files"]
        get_page_contract [of "site [Http_response 200 root_html, Http_response 404 gone_html]" default_url None
          "(init default_url [ascii ''output''] no_files)\<lparr>trace := [Sleep_ms 500, Http_get default_url None 30]\<rparr>"]
  by (simp add: site_def serve_def init_def n_requests_def)

subsection \<open>The manifest counts its items\<close>

lemma dict_set_sum:
  fixes h :: "'v \<Rightarrow> nat"
  shows "sum_list (map (\<lambda>kv. h (snd kv)) (dict_set k v d)) +
           (case map_of d k of None \<Rightarrow> 0 | Some old \<Rightarrow> h old) =
         sum_list (map (\<lambda>kv. h (snd kv)) d) + h v"
  by (induction d) auto

lemma map_of_dict_set: "map_of (dict_set k v d) k' = (if k' = k then Some v else map_of d k')"
  by (induction d) auto

lemma dict_list_dict_set: "dict_list k (dict_set k v d) = v"
  by (simp add: dict_list_def map_of_dict_set)

lemma dict_list_ensure:
  "dict_list k (if dict_contains k d then d else dict_set k [] d) = dict_list k d"
  by (auto simp: dict_list_def dict_contains_def map_of_dict_set)

lemma category_count_dict_set:
  "category_count (dict_set c its cats) + length (dict_list c cats) = category_count cats + length its"
  using dict_set_sum [of length c its cats]
  by (simp add: category_count_def dict_list_def split: option.splits)

lemma category_count_ensure:
  "category_count (if dict_contains c cats then cats else dict_set c [] cats) = category_count cats"
  using category_count_dict_set [of c "[]" cats]
  by (auto simp: dict_contains_def dict_list_def)

lemma versions_count_dict_set:
  "sum_list (map (\<lambda>kv. category_count (snd kv)) (dict_set v cs vs)) + category_count (dict_list v vs) =
   sum_list (map (\<lambda>kv. category_count (snd kv)) vs) + category_count cs"
  using dict_set_sum [of category_count v cs vs]
  by (simp add: dict_list_def category_count_def split: option.splits)

lemma versions_count_ensure:
  "sum_list (map (\<lambda>kv. category_count (snd kv)) (if dict_contains v vs then vs else dict_set v [] vs)) =
   sum_list (map (\<lambda>kv. category_count (snd kv)) vs)"
  using versions_count_dict_set [of v "[]" vs]
  by (auto simp: dict_contains_def dict_list_def category_count_def)

lemma add_to_manifest_Inr:
  assumes "add_to_manifest v c i p s = (Inr u, s')"
  shows "total_files (manifest s') = total_files (manifest s) + 1"
    and "manifest_count (manifest s') = manifest_count (manifest s) + 1"
    and "dict_list c (dict_list v (versions (manifest s'))) =
           dict_list c (dict_list v (versions (manifest s))) @
             [\<lparr>i_name = i, i_path = as_posix (drop (length (output_dir s)) p)\<rparr>]"
    and "trace s' = trace s" and "fs s' = fs s"
    and "output_dir s' = output_dir s" and "base_url s' = base_url s"
proof -
  define vs1 where "vs1 = (if dict_contains v (versions (manifest s)) then versions (manifest s)
                            else dict_set v [] (versions (manifest s)))"
  define cats1 where "cats1 = dict_list v vs1"
  define cats2 where "cats2 = (if dict_contains c cats1 then cats1 else dict_set c [] cats1)"
  define vs2 where "vs2 = dict_set v cats2 vs1"
  define its where "its = dict_list c cats2 @ [\<lparr>i_name = i, i_path = as_posix (drop (length (output_dir s)) p)\<rparr>]"
  define vs3 where "vs3 = dict_set v (dict_set c its cats2) vs2"
  have s': "s' = s\<lparr>manifest := (manifest s)\<lparr>versions := vs3, total_files := total_files (manifest s) + 1\<rparr>\<rparr>"
    using assms
    by (auto simp: add_to_manifest_def Let_def vs1_def cats1_def cats2_def vs2_def its_def vs3_def
             split: if_splits)
  show "total_files (manifest s') = total_files (manifest s) + 1"
    and "trace s' = trace s" and "fs s' = fs s"
    and "output_dir s' = output_dir s" and "base_url s' = base_url s"
    by (simp_all add: s')
  have c1: "cats1 = dict_list v (versions (manifest s))"
    unfolding cats1_def vs1_def by (rule dict_list_ensure)
  have c2: "dict_list c cats2 = dict_list c cats1"
    unfolding cats2_def by (rule dict_list_ensure)
  show "dict_list c (dict_list v (versions (manifest s'))) =
           dict_list c (dict_list v (versions (manifest s))) @
             [\<lparr>i_name = i, i_path = as_posix (drop (length (output_dir s)) p)\<rparr>]"
    by (simp add: s' vs3_def dict_list_dict_set its_def c2 c1)
  have n1: "sum_list (map (\<lambda>kv. category_count (snd kv)) vs1) = manifest_count (manifest s)"
    unfolding vs1_def manifest_count_def by (rule versions_count_ensure)
  have n2: "category_count cats2 = category_count cats1"
    unfolding cats2_def by (rule category_count_ensure)
  have n3: "sum_list (map (\<lambda>kv. category_count (snd kv)) vs2) = manifest_count (manifest s)"
    using versions_count_dict_set [of v cats2 vs1] n1 n2 by (simp add: vs2_def cats1_def)
  have n4: "category_count (dict_set c its cats2) = category_count cats2 + 1"
    using category_count_dict_set [of c its cats2] by (simp add: its_def)
  have "sum_list (map (\<lambda>kv. category_count (snd kv)) vs3) = manifest_count (manifest s) + 1"
    using versions_count_dict_set [of v "dict_set c its cats2" vs2] n3 n4
    by (simp add: vs3_def vs2_def dict_list_dict_set)
  then show "manifest_count (manifest s') = manifest_count (manifest s) + 1"
    by (simp add: s' manifest_count_def)
qed

lemma add_to_manifest_Inl:
  assumes "add_to_manifest v c i p s = (Inl err, s')"
  shows "err = ValueError" and "total_files (manifest s') = total_files (manifest s)"
    and "manifest_count (manifest s') = manifest_count (manifest s)"
    and "trace s' = trace s" and "fs s' = fs s"
    and "output_dir s' = output_dir s" and "base_url s' = base_url s"
    and "take (length (output_dir s)) p \<noteq> output_dir s"
proof -
  define vs1 where "vs1 = (if dict_contains v (versions (manifest s)) then versions (manifest s)
                            else dict_set v [] (versions (manifest s)))"
  define cats1 where "cats1 = dict_list v vs1"
  define cats2 where "cats2 = (if dict_contains c cats1 then cats1 else dict_set c [] cats1)"
  define vs2 where "vs2 = dict_set v cats2 vs1"
  have s': "s' = s\<lparr>manifest := (manifest s)\<lparr>versions := vs2\<rparr>\<rparr> \<and> err = ValueError \<and>
            take (length (output_dir s)) p \<noteq> output_dir s"
    using assms
    by (auto simp: add_to_manifest_def Let_def vs1_def cats1_def cats2_def vs2_def split: if_splits)
  show "err = ValueError" and "total_files (manifest s') = total_files (manifest s)"
    and "trace s' = trace s" and "fs s' = fs s"
    and "output_dir s' = output_dir s" and "base_url s' = base_url s"
    and "take (length (output_dir s)) p \<noteq> output_dir s"
    using s' by simp_all
  have n1: "sum_list (map (\<lambda>kv. category_count (snd kv)) vs1) = manifest_count (manifest s)"
    unfolding vs1_def manifest_count_def by (rule versions_count_ensure)
  have n2: "category_count cats2 = category_count cats1"
    unfolding cats2_def by (rule category_count_ensure)
  have "sum_list (map (\<lambda>kv. category_count (snd kv)) vs2) = manifest_count (manifest s)"
    using versions_count_dict_set [of v cats2 vs1] n1 n2 by (simp add: vs2_def cats1_def)
  then show "manifest_count (manifest s') = manifest_count (manifest s)"
    using s' by (simp add: manifest_count_def)
qed

lemma add_to_manifest_consistent:
  "consistent (manifest s) \<Longrightarrow> add_to_manifest v c i p s = (r, s') \<Longrightarrow> consistent (manifest s')"
proof (cases r)
  case (Inl err)
  assume "consistent (manifest s)" "add_to_manifest v c i p s = (r, s')"
  then show ?thesis
    using add_to_manifest_Inl(2,3) [of v c i p s err s'] Inl by (simp add: consistent_def)
next
  case (Inr u)
  assume "consistent (manifest s)" "add_to_manifest v c i p s = (r, s')"
  then show ?thesis
    using add_to_manifest_Inr(1,2) [of v c i p s u s'] Inr by (simp add: consistent_def)
qed

subsection \<open>What each step leaves alone\<close>

lemma n_saved_simps:
  "n_saved [] = 0"
  "n_saved (ev # tr) = (if is_saved ev then 1 else 0) + n_saved tr"
  "n_saved (tr @ tr') = n_saved tr + n_saved tr'"
  by (simp_all add: n_saved_def)

lemma n_skipped_simps:
  "n_skipped [] = 0"
  "n_skipped (ev # tr) = (if is_skipped ev then 1 else 0) + n_skipped tr"
  "n_skipped (tr @ tr') = n_skipped tr + n_skipped tr'"
  by (simp_all add: n_skipped_def)

lemma n_writes_simps:
  "n_writes [] = 0"
  "n_writes (ev # tr) = (if is_write ev then 1 else 0) + n_writes tr"
  "n_writes (tr @ tr') = n_writes tr + n_writes tr'"
  by (simp_all add: n_writes_def)

lemma n_writes_to_simps:
  "n_writes_to p [] = 0"
  "n_writes_to p (ev # tr) = (if is_write_to p ev then 1 else 0) + n_writes_to p tr"
  "n_writes_to p (tr @ tr') = n_writes_to p tr + n_writes_to p tr'"
  by (simp_all add: n_writes_to_def)

lemmas count_simps = n_saved_simps n_skipped_simps n_writes_simps n_writes_to_simps

lemma n_writes_to_filter: "n_writes_to p tr = n_writes_to p (filter is_write tr)"
proof -
  have "\<And>ev. (is_write ev \<and> is_write_to p ev) = is_write_to p ev"
    by (case_tac ev) auto
  then show ?thesis by (simp add: n_writes_to_def)
qed

lemma quiet_refl: "quiet s s"
  by (simp add: quiet_def)

lemma quiet_trans: "quiet s s1 \<Longrightarrow> quiet s1 s2 \<Longrightarrow> quiet s s2"
  by (simp add: quiet_def)

lemma quiet_emit_Print:
  "\<not> is_saved (Print m) \<Longrightarrow> \<not> is_skipped (Print m) \<Longrightarrow> quiet s (emit (Print m) s)"
  by (simp add: quiet_def emit_def count_simps)

lemma quiet_booked: "quiet s s' \<Longrightarrow> booked s s'"
  using n_writes_to_filter [of _ "trace s"] n_writes_to_filter [of _ "trace s'"]
  by (simp add: quiet_def booked_def n_writes_def)

lemma booked_refl: "booked s s"
  by (simp add: booked_def)

lemma booked_trans: "booked s s1 \<Longrightarrow> booked s1 s2 \<Longrightarrow> booked s s2"
  by (simp add: booked_def manifest_path_def index_path_def)

lemma get_page_quiet: "get_page e url ps s = (r, s') \<Longrightarrow> quiet s s'"
  by (auto simp: get_page_def Let_def emit_def quiet_def count_simps split: response.splits if_splits)

lemma parse_main_page_quiet: "parse_main_page e s = (cats, s') \<Longrightarrow> quiet s s'"
proof -
  assume a: "parse_main_page e s = (cats, s')"
  obtain html s2 where g: "get_page e (base_url s) None (emit (Print Fetching_main_page) s) = (html, s2)"
    by fastforce
  have q1: "quiet s (emit (Print Fetching_main_page) s)"
    by (simp add: quiet_emit_Print)
  have q2: "quiet s s2"
    using q1 get_page_quiet [OF g] by (rule quiet_trans)
  have "s' = s2 \<or> s' = emit (Print Could_not_find_sidebar) s2 \<or> (\<exists>n. s' = emit (Print (Found_categories n)) s2)"
    using a g by (auto simp: parse_main_page_def Let_def emit_def split: if_splits sum.splits)
  moreover have "\<And>m. \<not> is_saved (Print m) \<Longrightarrow> \<not> is_skipped (Print m) \<Longrightarrow> quiet s (emit (Print m) s2)"
    using q2 quiet_emit_Print quiet_trans by blast
  ultimately show ?thesis
    using q2 by auto
qed

subsection \<open>The links of a page\<close>

lemma script_category_error: "script_category e hl = Inl err \<Longrightarrow> err = ValueError"
  by (auto simp: script_category_def Let_def split: if_splits)

lemma engine_category_error: "engine_category e hl = Inl err \<Longrightarrow> err = ValueError"
  by (auto simp: engine_category_def Let_def split: if_splits)

lemma sub_info_error: "sub_info e ci hl = Inl err \<Longrightarrow> err = ValueError"
  by (auto simp: sub_info_def Let_def split: if_splits)

lemma script_links_eq:
  "script_links e links acc =
     (if \<forall>hl \<in> set links. \<exists>r. script_category e hl = Inr r
      then Inr (acc @ List.map_filter (\<lambda>hl. parsed (script_category e hl)) links)
      else Inl ValueError)"
proof (induction links arbitrary: acc)
  case Nil
  show ?case by (simp add: List.map_filter_simps)
next
  case (Cons hl links)
  show ?case
  proof (cases "script_category e hl")
    case (Inl err)
    then show ?thesis
      using script_category_error [OF Inl] by auto
  next
    case (Inr r)
    then show ?thesis
      using Cons.IH by (cases r) (simp_all add: List.map_filter_simps parsed_def)
  qed
qed

lemma engine_links_eq:
  "engine_links e links acc =
     (if \<forall>hl \<in> set links. \<exists>r. engine_category e hl = Inr r
      then Inr (acc @ List.map_filter (\<lambda>hl. parsed (engine_category e hl)) links)
      else Inl ValueError)"
proof (induction links arbitrary: acc)
  case Nil
  show ?case by (simp add: List.map_filter_simps)
next
  case (Cons hl links)
  show ?case
  proof (cases "engine_category e hl")
    case (Inl err)
    then show ?thesis
      using engine_category_error [OF Inl] by auto
  next
    case (Inr r)
    then show ?thesis
      using Cons.IH by (cases r) (simp_all add: List.map_filter_simps parsed_def)
  qed
qed

lemma sub_links_eq:
  "sub_links e ci links acc =
     (if \<forall>hl \<in> set links. \<exists>r. sub_info e ci hl = Inr r
      then Inr (acc @ List.map_filter (\<lambda>hl. parsed (sub_info e ci hl)) links)
      else Inl ValueError)"
proof (induction links arbitrary: acc)
  case Nil
  show ?case by (simp add: List.map_filter_simps)
next
  case (Cons hl links)
  show ?case
  proof (cases "sub_info e ci hl")
    case (Inl err)
    then show ?thesis
      using sub_info_error [OF Inl] by auto
  next
    case (Inr r)
    then show ?thesis
      using Cons.IH by (cases r) (simp_all add: List.map_filter_simps parsed_def)
  qed
qed

lemma sub_info_Inr: "(\<exists>r. sub_info e ci hl = Inr r) = (\<not> urlparse_raises e (fst hl))"
  by (simp add: sub_info_def Let_def)

subsection \<open>Every leaf can be requested\<close>

lemma script_category_well_formed: "parsed (script_category e hl) = Some ci \<Longrightarrow> well_formed ci"
  by (auto simp: parsed_def script_category_def Let_def well_formed_def
           split: if_splits option.splits sum.splits)

lemma engine_category_well_formed: "parsed (engine_category e hl) = Some ci \<Longrightarrow> well_formed ci"
  by (auto simp: parsed_def engine_category_def Let_def well_formed_def
           split: if_splits option.splits sum.splits)

lemma map_filter_all:
  "(\<And>x y. f x = Some y \<Longrightarrow> P y) \<Longrightarrow> \<forall>y \<in> set (List.map_filter f xs). P y"
  by (auto simp: List.map_filter_def)

lemma parse_main_page_well_formed:
  "parse_main_page e s = (Inr cats, s') \<Longrightarrow> \<forall>ci \<in> set cats. well_formed ci"
proof -
  assume a: "parse_main_page e s = (Inr cats, s')"
  have "cats = [] \<or>
        (\<exists>xs ys. cats = List.map_filter (\<lambda>hl. parsed (script_category e hl)) xs @
                        List.map_filter (\<lambda>hl. parsed (engine_category e hl)) ys)"
    using a
    by (auto simp: parse_main_page_def Let_def script_links_eq engine_links_eq
             split: if_splits prod.splits)
  moreover have "\<And>xs. \<forall>ci \<in> set (List.map_filter (\<lambda>hl. parsed (script_category e hl)) xs). well_formed ci"
    by (rule map_filter_all) (rule script_category_well_formed)
  moreover have "\<And>ys. \<forall>ci \<in> set (List.map_filter (\<lambda>hl. parsed (engine_category e hl)) ys). well_formed ci"
    by (rule map_filter_all) (rule engine_category_well_formed)
  ultimately show ?thesis
    by auto
qed

lemma parse_main_page_error:
  "parse_main_page e s = (Inl err, s') \<Longrightarrow> err = ValueError \<or> err = ParserRejectedMarkup"
  by (auto simp: parse_main_page_def Let_def script_links_eq engine_links_eq
           split: if_splits prod.splits)

lemma sub_info_well_formed: "parsed (sub_info e ci hl) = Some sub \<Longrightarrow> well_formed sub"
  by (auto simp: parsed_def sub_info_def Let_def well_formed_def split: if_splits sum.splits)

lemma sub_infos_well_formed:
  "\<forall>sub \<in> set (List.map_filter (\<lambda>hl. parsed (sub_info e ci hl)) links). well_formed sub"
  by (rule map_filter_all) (rule sub_info_well_formed)

lemma subcategories_of_well_formed:
  "well_formed ci \<Longrightarrow>
   (case subcategories_of e ci soup of
      Inl err \<Rightarrow> err = ValueError
    | Inr subs \<Rightarrow> \<forall>sub \<in> set subs. well_formed sub)"
proof -
  assume wf: "well_formed ci"
  have "subcategories_of e ci soup = Inl ValueError \<or> subcategories_of e ci soup = Inr [] \<or>
        subcategories_of e ci soup = Inr [ci] \<or>
        (\<exists>links. subcategories_of e ci soup =
                   Inr (List.map_filter (\<lambda>hl. parsed (sub_info e ci hl)) links))"
    by (auto simp: subcategories_of_def Let_def sub_links_eq split: option.splits)
  then show ?thesis
    using wf sub_infos_well_formed [of e ci] by auto
qed

lemma get_subcategories_quiet: "get_subcategories e ci s = (r, s') \<Longrightarrow> quiet s s'"
proof -
  assume a: "get_subcategories e ci s = (r, s')"
  let ?s1 = "emit (Print (Fetching_subcategories (ci_name ci))) s"
  have q1: "quiet s ?s1" by (simp add: quiet_emit_Print)
  show ?thesis
  proof (cases "request_params ci")
    case (Inl err)
    with a have "s' = ?s1" by (simp add: get_subcategories_def Let_def)
    with q1 show ?thesis by simp
  next
    case (Inr ps)
    obtain html s2 where g: "get_page e (base_url ?s1) (Some ps) ?s1 = (html, s2)"
      by fastforce
    with a Inr have "s' = s2"
      by (auto simp: get_subcategories_def Let_def split: if_splits)
    with q1 get_page_quiet [OF g] show ?thesis
      using quiet_trans by blast
  qed
qed

lemma get_subcategories_result:
  assumes "get_subcategories e ci s = (r, s')" and "well_formed ci"
  shows "case r of
           Inl err \<Rightarrow> err = ValueError \<or> err = ParserRejectedMarkup
         | Inr subs \<Rightarrow> \<forall>sub \<in> set subs. well_formed sub"
proof -
  obtain ps where ps: "request_params ci = Inr ps"
    using assms(2) request_params_well_formed by blast
  let ?s1 = "emit (Print (Fetching_subcategories (ci_name ci))) s"
  obtain html s2 where g: "get_page e (base_url ?s1) (Some ps) ?s1 = (html, s2)"
    by fastforce
  have "r = Inr [] \<or> r = Inl ParserRejectedMarkup \<or> (\<exists>soup. r = subcategories_of e ci soup)"
    using assms(1) ps g by (auto simp: get_subcategories_def Let_def split: if_splits)
  then consider "r = Inr []" | "r = Inl ParserRejectedMarkup"
    | soup where "r = subcategories_of e ci soup"
    by blast
  then show ?thesis
  proof cases
    case 3
    then show ?thesis
      using subcategories_of_well_formed [OF assms(2), of e soup] by (simp split: sum.splits)
  qed simp_all
qed

subsection \<open>Saving keeps the books\<close>

lemma mkdir_from_OSError: "mkdir_from done todo f = Inl err \<Longrightarrow> is_OSError err"
  by (induction "done" todo f rule: mkdir_from.induct)
     (auto split: option.splits entry.splits if_splits)

lemma open_write_cases:
  "open_write p text s = (r, s') \<Longrightarrow>
     (case r of
        Inl err \<Rightarrow> is_OSError err \<and> s' = s
      | Inr u \<Rightarrow> s' = s\<lparr>fs := (fs s)(p \<mapsto> File text), trace := trace s @ [Write_file p text]\<rparr>)"
  by (auto simp: open_write_def emit_def split: if_splits)

lemma probe_path_below: "take (length out) (probe_path u out ci) = out"
  by (simp add: probe_path_form)

lemma probe_path_length: "length out + 2 \<le> length (probe_path u out ci)"
  by (simp add: probe_path_form)

lemma probe_path_not_manifest:
  "probe_path u (output_dir s) ci \<noteq> manifest_path s" "probe_path u (output_dir s) ci \<noteq> index_path s"
  using probe_path_length [of "output_dir s" u ci]
  by (auto simp: manifest_path_def index_path_def joinpath_def split: if_splits)

lemma save_content_cases:
  assumes "save_content e content ci s = (r, s')"
  shows "output_dir s' = output_dir s \<and> base_url s' = base_url s \<and>
     (consistent (manifest s) \<longrightarrow> consistent (manifest s')) \<and>
     (case r of
        Inl err \<Rightarrow> is_OSError err \<and> manifest s' = manifest s \<and> trace s' = trace s
      | Inr p \<Rightarrow>
          p = probe_path e (output_dir s) ci \<and>
          total_files (manifest s') = total_files (manifest s) + 1 \<and>
          (\<exists>text. trace s' = trace s @ [Write_file p text]))"
proof -
  let ?p = "probe_path e (output_dir s) ci"
  let ?dir = "joinpath (joinpath (output_dir s) (version_str (ci_version ci))) (safe_name e (display_category ci))"
  let ?text = "document (ci_name ci) (display_category ci) (ci_version ci) content"
  show ?thesis
  proof (cases "mkdir_parents ?dir (fs s)")
    case (Inl err)
    then have "r = Inl err \<and> s' = s"
      using assms by (simp add: save_content_def Let_def)
    moreover have "is_OSError err"
      using Inl mkdir_from_OSError by (simp add: mkdir_parents_def)
    ultimately show ?thesis by simp
  next
    case (Inr f1)
    obtain r2 s2 where ow: "open_write ?p ?text (s\<lparr>fs := f1\<rparr>) = (r2, s2)"
      by fastforce
    note oc = open_write_cases [OF ow]
    show ?thesis
    proof (cases r2)
      case (Inl err)
      then have "r = Inl err \<and> s' = s2"
        using assms Inr ow by (simp add: save_content_def Let_def probe_path_def)
      then show ?thesis using oc Inl by simp
    next
      case r2: (Inr u)
      then have s2: "s2 = s\<lparr>fs := f1(?p \<mapsto> File ?text), trace := trace s @ [Write_file ?p ?text]\<rparr>"
        using oc by simp
      obtain r3 s3 where am: "add_to_manifest (ci_version ci) (display_category ci) (ci_name ci) ?p s2 = (r3, s3)"
        by fastforce
      have "take (length (output_dir s2)) ?p = output_dir s2"
        by (simp add: s2 probe_path_below)
      then obtain u3 where r3: "r3 = Inr u3"
        using add_to_manifest_Inl(8) [of "ci_version ci" "display_category ci" "ci_name ci" ?p s2 _ s3] am
        by (cases r3) auto
      have res: "r = Inr ?p \<and> s' = s3"
        using assms Inr ow r2 am r3 by (simp add: save_content_def Let_def probe_path_def)
      have cons: "consistent (manifest s2) \<longrightarrow> consistent (manifest s3)"
        using add_to_manifest_consistent [OF _ am] by blast
      show ?thesis
        using res cons add_to_manifest_Inr [OF am [unfolded r3]] by (simp add: s2)
    qed
  qed
qed

lemma scrape_page_booked:
  assumes "scrape_page e ci s = (r, s')"
  shows "booked s s' \<and>
     (case r of
        Inl err \<Rightarrow> well_formed ci \<longrightarrow> raised_by_page err
      | Inr ok \<Rightarrow>
          n_saved (trace s') + n_skipped (trace s') =
            n_saved (trace s) + n_skipped (trace s) + (if ok then 1 else 0))"
proof (cases "request_params ci")
  case (Inl err)
  then have "r = Inl err \<and> s' = s"
    using assms by (simp add: scrape_page_def)
  then show ?thesis
    using Inl request_params_KeyError by (auto simp: booked_refl)
next
  case (Inr ps)
  let ?p = "probe_path e (output_dir s) ci"
  show ?thesis
  proof (cases "path_exists (fs s) ?p")
    case True
    then have "r = Inr True \<and> s' = emit (Print (Already_exists (ci_name ci))) s"
      using assms Inr by (simp add: scrape_page_def)
    then show ?thesis
      by (simp add: booked_def emit_def count_simps)
  next
    case False
    let ?s1 = "emit (Print (Scraping (ci_name ci))) s"
    obtain html s2 where g: "get_page e (base_url ?s1) (Some ps) ?s1 = (html, s2)"
      by fastforce
    have q: "quiet s s2"
      using quiet_trans [OF quiet_emit_Print get_page_quiet [OF g]] by simp
    show ?thesis
    proof (cases "falsy html")
      case True
      then have "r = Inr False \<and> s' = s2"
        using assms Inr False g by (simp add: scrape_page_def Let_def)
      then show ?thesis
        using q quiet_booked [OF q] by (simp add: quiet_def)
    next
      case nonempty: False
      let ?soup = "BeautifulSoup e (case html of Some h \<Rightarrow> h | None \<Rightarrow> [])"
      show ?thesis
      proof (cases "rejects_markup e (case html of Some h \<Rightarrow> h | None \<Rightarrow> [])")
      case True
      then have "r = Inl ParserRejectedMarkup \<and> s' = s2"
        using assms Inr False g nonempty by (simp add: scrape_page_def Let_def)
      then show ?thesis
        using quiet_booked [OF q] by (simp add: raised_by_page_def)
      next
      case accepted: False
      show ?thesis
      proof (cases "extract_content e ?soup")
        case None
        then have "r = Inr False \<and> s' = emit (Print (No_content_found (ci_name ci))) s2"
          using assms Inr False g nonempty accepted by (simp add: scrape_page_def Let_def)
        moreover have "quiet s (emit (Print (No_content_found (ci_name ci))) s2)"
          using quiet_trans [OF q quiet_emit_Print] by simp
        ultimately show ?thesis
          using quiet_booked [of s s'] by (simp add: quiet_def)
      next
        case (Some content_div)
        obtain r3 s3 where sc: "save_content e (html_to_markdown e (Some content_div)) ci s2 = (r3, s3)"
          by fastforce
        note cases = save_content_cases [OF sc]
        have out: "output_dir s2 = output_dir s"
          using q by (simp add: quiet_def)
        show ?thesis
        proof (cases r3)
          case (Inl err)
          then have "r = Inl err \<and> s' = s3"
            using assms Inr False g nonempty accepted Some sc by (simp add: scrape_page_def Let_def)
          moreover have "booked s s3"
            using q cases Inl n_writes_to_filter [of _ "trace s"] n_writes_to_filter [of _ "trace s2"]
            by (simp add: booked_def quiet_def n_writes_def)
          ultimately show ?thesis
            using cases Inl by (simp add: raised_by_page_def)
        next
          case r3: (Inr p)
          then have res: "r = Inr True \<and> s' = emit (Print (Saved p)) s3"
            using assms Inr False g nonempty accepted Some sc by (simp add: scrape_page_def Let_def)
          obtain written where tr: "trace s3 = trace s2 @ [Write_file p written]"
            using cases r3 by auto
          have p: "p = probe_path e (output_dir s) ci"
            using cases r3 out by simp
          have "booked s s'"
            using q cases r3 tr res probe_path_not_manifest [of e s ci] p n_writes_to_filter [of _ "trace s"] n_writes_to_filter [of _ "trace s2"]
            by (simp add: booked_def quiet_def emit_def count_simps n_writes_def)
          moreover have "n_saved (trace s') + n_skipped (trace s') = n_saved (trace s) + n_skipped (trace s) + 1"
            using q res tr by (simp add: quiet_def emit_def count_simps)
          ultimately show ?thesis
            using res by simp
        qed
      qed
      qed
    qed
  qed
qed

subsection \<open>The loops of a run\<close>

lemma tally_fst: "fst (tally ok totals) = fst totals + (if ok then 1 else 0)"
  by (simp add: tally_def)

lemma scrape_leaves_booked:
  "scrape_leaves e subs totals s = (r, s') \<Longrightarrow>
     booked s s' \<and>
     (case r of
        Inl err \<Rightarrow> (\<forall>sub \<in> set subs. well_formed sub) \<longrightarrow> raised_by_page err
      | Inr totals' \<Rightarrow>
          fst totals' + int (n_saved (trace s) + n_skipped (trace s)) =
            fst totals + int (n_saved (trace s') + n_skipped (trace s')))"
proof (induction subs arbitrary: totals s)
  case Nil
  then show ?case by (auto simp: booked_refl)
next
  case (Cons sub subs)
  obtain r1 s1 where sp: "scrape_page e sub s = (r1, s1)"
    by fastforce
  note page = scrape_page_booked [OF sp]
  show ?case
  proof (cases r1)
    case (Inl err)
    then have "r = Inl err \<and> s' = s1"
      using Cons.prems sp by simp
    then show ?thesis
      using page Inl by simp
  next
    case (Inr ok)
    then have rest: "scrape_leaves e subs (tally ok totals) s1 = (r, s')"
      using Cons.prems sp by simp
    note ih = Cons.IH [OF rest]
    have b: "booked s s'"
      using page ih booked_trans by blast
    show ?thesis
    proof (cases r)
      case (Inl err)
      then show ?thesis using b ih by simp
    next
      case r: (Inr totals')
      then show ?thesis
        using b ih page Inr by (cases ok) (simp_all add: tally_fst)
    qed
  qed
qed

lemma scrape_category_booked:
  assumes "scrape_category e i n category totals s = (r, s')"
  shows "booked s s' \<and>
     (case r of
        Inl err \<Rightarrow> well_formed category \<longrightarrow> raised_by_page err
      | Inr totals' \<Rightarrow>
          fst totals' + int (n_saved (trace s) + n_skipped (trace s)) =
            fst totals + int (n_saved (trace s') + n_skipped (trace s')))"
proof -
  let ?s1 = "emit (Print (Processing i n (ci_name category))) s"
  have q1: "quiet s ?s1" by (simp add: quiet_emit_Print)
  obtain r2 s2 where gs: "get_subcategories e category ?s1 = (r2, s2)"
    by fastforce
  have q2: "quiet s s2"
    using q1 get_subcategories_quiet [OF gs] by (rule quiet_trans)
  show ?thesis
  proof (cases r2)
    case (Inl err)
    then have "r = Inl err \<and> s' = s2"
      using assms gs by (simp add: scrape_category_def Let_def)
    moreover have "well_formed category \<longrightarrow> raised_by_page err"
      using get_subcategories_result [OF gs] Inl by (auto simp: raised_by_page_def)
    ultimately show ?thesis
      using quiet_booked [OF q2] by simp
  next
    case (Inr subcategories)
    show ?thesis
    proof (cases "subcategories = []")
      case True
      let ?s3 = "emit (Print No_subcategories_found) s2"
      have "quiet s2 ?s3"
        by (simp add: quiet_emit_Print)
      with q2 have q3: "quiet s ?s3"
        by (rule quiet_trans)
      obtain r4 s4 where sp: "scrape_page e category ?s3 = (r4, s4)"
        by fastforce
      note page = scrape_page_booked [OF sp]
      have b: "booked s s4"
        using quiet_booked [OF q3] page booked_trans by blast
      have counts: "n_saved (trace ?s3) = n_saved (trace s)" "n_skipped (trace ?s3) = n_skipped (trace s)"
        using q3 by (simp_all add: quiet_def)
      show ?thesis
      proof (cases r4)
        case (Inl err)
        then have "r = Inl err \<and> s' = s4"
          using assms gs Inr True sp by (simp add: scrape_category_def Let_def)
        then show ?thesis using b page Inl by simp
      next
        case ok: (Inr ok)
        then have "r = Inr (tally ok totals) \<and> s' = s4"
          using assms gs Inr True sp by (simp add: scrape_category_def Let_def)
        then show ?thesis
          using b page ok counts by (cases ok) (simp_all add: tally_fst)
      qed
    next
      case False
      then have sl: "scrape_leaves e subcategories totals s2 = (r, s')"
        using assms gs Inr by (simp add: scrape_category_def Let_def)
      note leaves = scrape_leaves_booked [OF sl]
      have b: "booked s s'"
        using quiet_booked [OF q2] leaves booked_trans by blast
      have counts: "n_saved (trace s2) = n_saved (trace s)" "n_skipped (trace s2) = n_skipped (trace s)"
        using q2 by (simp_all add: quiet_def)
      have wf: "well_formed category \<Longrightarrow> \<forall>sub \<in> set subcategories. well_formed sub"
        using get_subcategories_result [OF gs] Inr by auto
      show ?thesis
      proof (cases r)
        case (Inl err)
        then show ?thesis using b leaves wf by auto
      next
        case (Inr totals')
        then show ?thesis using b leaves counts by simp
      qed
    qed
  qed
qed

lemma scrape_categories_booked:
  "scrape_categories e i n categories totals s = (r, s') \<Longrightarrow>
     booked s s' \<and>
     (case r of
        Inl err \<Rightarrow> (\<forall>ci \<in> set categories. well_formed ci) \<longrightarrow> raised_by_page err
      | Inr totals' \<Rightarrow>
          fst totals' + int (n_saved (trace s) + n_skipped (trace s)) =
            fst totals + int (n_saved (trace s') + n_skipped (trace s')))"
proof (induction categories arbitrary: i totals s)
  case Nil
  then show ?case by (auto simp: booked_refl)
next
  case (Cons category rest)
  obtain r1 s1 where sc: "scrape_category e i n category totals s = (r1, s1)"
    by fastforce
  note one = scrape_category_booked [OF sc]
  show ?case
  proof (cases r1)
    case (Inl err)
    then have "r = Inl err \<and> s' = s1"
      using Cons.prems sc by simp
    then show ?thesis
      using one Inl by simp
  next
    case (Inr totals1)
    then have tl: "scrape_categories e (i + 1) n rest totals1 s1 = (r, s')"
      using Cons.prems sc by simp
    note ih = Cons.IH [OF tl]
    have b: "booked s s'"
      using one ih booked_trans by blast
    show ?thesis
    proof (cases r)
      case (Inl err)
      then show ?thesis using b ih by simp
    next
      case r: (Inr totals')
      then show ?thesis
        using b ih one Inr by simp
    qed
  qed
qed

subsection \<open>Writing the manifest and the index\<close>

lemma save_manifest_cases:
  assumes "save_manifest e s = (r, s')"
  shows "output_dir s' = output_dir s \<and> base_url s' = base_url s \<and>
     manifest s' = (manifest s)\<lparr>generated_at := Some (now e)\<rparr> \<and>
     (case r of
        Inl err \<Rightarrow> is_OSError err
      | Inr u \<Rightarrow>
          trace s' = trace s @
            [Write_file (manifest_path s) (json_dump e (manifest s')),
             Print (Manifest_saved (manifest_path s)),
             Write_file (index_path s) (index_text (manifest s')),
             Print (Index_saved (index_path s))])"
proof -
  let ?s1 = "s\<lparr>manifest := (manifest s)\<lparr>generated_at := Some (now e)\<rparr>\<rparr>"
  obtain r2 s2 where ow: "open_write (manifest_path ?s1) (json_dump e (manifest ?s1)) ?s1 = (r2, s2)"
    by fastforce
  note first = open_write_cases [OF ow]
  show ?thesis
  proof (cases r2)
    case (Inl err)
    then have "r = Inl err \<and> s' = s2"
      using assms ow by (simp add: save_manifest_def Let_def)
    then show ?thesis using first Inl by simp
  next
    case (Inr u)
    let ?s3 = "emit (Print (Manifest_saved (manifest_path ?s1))) s2"
    obtain r4 s4 where ow2: "open_write (index_path ?s3) (index_text (manifest ?s3)) ?s3 = (r4, s4)"
      by fastforce
    note second = open_write_cases [OF ow2]
    have s2: "s2 = ?s1\<lparr>fs := (fs s)(manifest_path ?s1 \<mapsto> File (json_dump e (manifest ?s1))),
                         trace := trace s @ [Write_file (manifest_path ?s1) (json_dump e (manifest ?s1))]\<rparr>"
      using first Inr by simp
    have ci: "create_markdown_index ?s3 =
                (case r4 of Inl err \<Rightarrow> (Inl err, s4)
                 | Inr u \<Rightarrow> (Inr (), emit (Print (Index_saved (index_path ?s3))) s4))"
      using ow2 by (simp add: create_markdown_index_def split: sum.splits)
    have res: "(r, s') = create_markdown_index ?s3"
      using assms ow Inr by (simp add: save_manifest_def Let_def)
    show ?thesis
    proof (cases r4)
      case (Inl err)
      then show ?thesis
        using res ci second s2 by (simp add: emit_def)
    next
      case r4: (Inr u4)
      then show ?thesis
        using res ci second s2 by (simp add: emit_def manifest_path_def index_path_def)
    qed
  qed
qed

lemma consistent_stamp:
  "consistent (m\<lparr>generated_at := t\<rparr>) = consistent m"
  by (simp add: consistent_def manifest_count_def)

subsection \<open>A whole run\<close>

lemma quiet_banner: "quiet s (banner s)"
  by (simp add: banner_def quiet_def emit_def count_simps)

lemma scrape_all_parse_error:
  assumes "parse_main_page e (banner s) = (Inl err, s1)" and "scrape_all e s = (r, s')"
  shows "r = Inl err \<and> s' = s1 \<and> quiet s s1 \<and> (err = ValueError \<or> err = ParserRejectedMarkup)"
  using assms quiet_trans [OF quiet_banner parse_main_page_quiet [OF assms(1)]]
        parse_main_page_error [OF assms(1)]
  by (simp add: scrape_all_def)

lemma scrape_all_cases:
  assumes "parse_main_page e (banner s) = (Inr categories, s1)" and "scrape_all e s = (r, s')"
  shows "quiet s s1"
    and "categories = [] \<Longrightarrow> r = Inr () \<and> s' = emit (Print Failed_to_parse_main_page) s1"
    and "categories \<noteq> [] \<Longrightarrow>
           \<exists>r2 s2. scrape_categories e 1 (length categories) categories (0, 0) s1 = (r2, s2) \<and>
             booked s s2 \<and>
             (case r2 of
                Inl err \<Rightarrow> r = Inl err \<and> s' = s2 \<and> raised_by_page err
              | Inr totals \<Rightarrow>
                  fst totals + int (n_saved (trace s) + n_skipped (trace s)) =
                    int (n_saved (trace s2) + n_skipped (trace s2)) \<and>
                  output_dir s' = output_dir s \<and>
                  manifest s' = (manifest s2)\<lparr>generated_at := Some (now e)\<rparr> \<and>
                  (case r of
                     Inl err \<Rightarrow> is_OSError err
                   | Inr u \<Rightarrow>
                       trace s' = trace s2 @
                         [Print Generating_manifest,
                          Write_file (manifest_path s) (json_dump e (manifest s')),
                          Print (Manifest_saved (manifest_path s)),
                          Write_file (index_path s) (index_text (manifest s')),
                          Print (Index_saved (index_path s))] @
                         summary totals (output_dir s)))"
proof -
  show q1: "quiet s s1"
    using quiet_banner parse_main_page_quiet [OF assms(1)] by (rule quiet_trans)
  show "categories = [] \<Longrightarrow> r = Inr () \<and> s' = emit (Print Failed_to_parse_main_page) s1"
    using assms by (simp add: scrape_all_def)
  show "\<exists>r2 s2. scrape_categories e 1 (length categories) categories (0, 0) s1 = (r2, s2) \<and>
             booked s s2 \<and>
             (case r2 of
                Inl err \<Rightarrow> r = Inl err \<and> s' = s2 \<and> raised_by_page err
              | Inr totals \<Rightarrow>
                  fst totals + int (n_saved (trace s) + n_skipped (trace s)) =
                    int (n_saved (trace s2) + n_skipped (trace s2)) \<and>
                  output_dir s' = output_dir s \<and>
                  manifest s' = (manifest s2)\<lparr>generated_at := Some (now e)\<rparr> \<and>
                  (case r of
                     Inl err \<Rightarrow> is_OSError err
                   | Inr u \<Rightarrow>
                       trace s' = trace s2 @
                         [Print Generating_manifest,
                          Write_file (manifest_path s) (json_dump e (manifest s')),
                          Print (Manifest_saved (manifest_path s)),
                          Write_file (index_path s) (index_text (manifest s')),
                          Print (Index_saved (index_path s))] @
                         summary totals (output_dir s)))"
    if nonempty: "categories \<noteq> []"
  proof -
    obtain r2 s2 where loop: "scrape_categories e 1 (length categories) categories (0, 0) s1 = (r2, s2)"
      by fastforce
    note lb = scrape_categories_booked [OF loop]
    have wf: "\<forall>ci \<in> set categories. well_formed ci"
      using parse_main_page_well_formed [OF assms(1)] .
    have b: "booked s s2"
      using quiet_booked [OF q1] lb booked_trans by blast
    have counts: "n_saved (trace s1) = n_saved (trace s)" "n_skipped (trace s1) = n_skipped (trace s)"
      using q1 by (simp_all add: quiet_def)
    have out: "output_dir s2 = output_dir s"
      using b by (simp add: booked_def)
    have "case r2 of
                Inl err \<Rightarrow> r = Inl err \<and> s' = s2 \<and> raised_by_page err
              | Inr totals \<Rightarrow>
                  fst totals + int (n_saved (trace s) + n_skipped (trace s)) =
                    int (n_saved (trace s2) + n_skipped (trace s2)) \<and>
                  output_dir s' = output_dir s \<and>
                  manifest s' = (manifest s2)\<lparr>generated_at := Some (now e)\<rparr> \<and>
                  (case r of
                     Inl err \<Rightarrow> is_OSError err
                   | Inr u \<Rightarrow>
                       trace s' = trace s2 @
                         [Print Generating_manifest,
                          Write_file (manifest_path s) (json_dump e (manifest s')),
                          Print (Manifest_saved (manifest_path s)),
                          Write_file (index_path s) (index_text (manifest s')),
                          Print (Index_saved (index_path s))] @
                         summary totals (output_dir s))"
    proof (cases r2)
      case (Inl err)
      then have "r = Inl err \<and> s' = s2"
        using assms nonempty loop by (simp add: scrape_all_def)
      then show ?thesis
        using Inl lb wf by simp
    next
      case (Inr totals)
      let ?s3 = "emit (Print Generating_manifest) s2"
      obtain r4 s4 where sm: "save_manifest e ?s3 = (r4, s4)"
        by fastforce
      note saved = save_manifest_cases [OF sm]
      have paths: "manifest_path ?s3 = manifest_path s" "index_path ?s3 = index_path s"
        using out by (simp_all add: manifest_path_def index_path_def emit_def)
      have res: "(r, s') = (case r4 of Inl err \<Rightarrow> (Inl err, s4)
                   | Inr u \<Rightarrow> (Inr (), s4\<lparr>trace := trace s4 @ summary totals (output_dir s4)\<rparr>))"
        using assms nonempty loop Inr sm by (simp add: scrape_all_def split: sum.splits)
      have acc: "fst totals + int (n_saved (trace s) + n_skipped (trace s)) =
                    int (n_saved (trace s2) + n_skipped (trace s2))"
        using lb Inr counts by simp
      show ?thesis
      proof (cases r4)
        case (Inl err)
        then show ?thesis
          using Inr res saved acc out by (simp add: emit_def)
      next
        case r4: (Inr u)
        then show ?thesis
          using Inr res saved acc out paths by (simp add: emit_def)
      qed
    qed
    with loop b show ?thesis by blast
  qed
qed

lemma scrape_all_consistent:
  assumes "consistent (manifest s)" and "scrape_all e s = (r, s')"
  shows "consistent (manifest s')"
proof -
  obtain r1 s1 where pm: "parse_main_page e (banner s) = (r1, s1)"
    by fastforce
  show ?thesis
  proof (cases r1)
  case (Inl err)
  then show ?thesis
    using scrape_all_parse_error [OF pm [unfolded Inl] assms(2)] assms(1) by (simp add: quiet_def)
  next
  case (Inr categories)
  note c = scrape_all_cases [OF pm [unfolded Inr] assms(2)]
  show ?thesis
  proof (cases "categories = []")
    case True
    then show ?thesis
      using c(1,2) assms(1) by (simp add: quiet_def emit_def)
  next
    case False
    then obtain r2 s2 where loop: "booked s s2"
      "case r2 of Inl err \<Rightarrow> r = Inl err \<and> s' = s2 \<and> raised_by_page err
       | Inr totals \<Rightarrow> fst totals + int (n_saved (trace s) + n_skipped (trace s)) =
                    int (n_saved (trace s2) + n_skipped (trace s2)) \<and>
                  output_dir s' = output_dir s \<and>
                  manifest s' = (manifest s2)\<lparr>generated_at := Some (now e)\<rparr> \<and>
                  (case r of
                     Inl err \<Rightarrow> is_OSError err
                   | Inr u \<Rightarrow>
                       trace s' = trace s2 @
                         [Print Generating_manifest,
                          Write_file (manifest_path s) (json_dump e (manifest s')),
                          Print (Manifest_saved (manifest_path s)),
                          Write_file (index_path s) (index_text (manifest s')),
                          Print (Index_saved (index_path s))] @
                         summary totals (output_dir s))"
      using c(3) by blast
    have "consistent (manifest s2)"
      using loop(1) assms(1) by (simp add: booked_def)
    then show ?thesis
      using loop(2) by (cases r2) (simp_all add: consistent_stamp)
  qed
  qed
qed

lemma save_manifest_consistent:
  "consistent (manifest s) \<Longrightarrow> save_manifest e s = (r, s') \<Longrightarrow> consistent (manifest s')"
  using save_manifest_cases [of e s r s'] by (simp add: consistent_stamp)

lemma init_consistent: "consistent (manifest (init url out f)) \<and> total_files (manifest (init url out f)) = 0"
  by (simp add: init_def consistent_def manifest_count_def)

text \<open>
  C9. \<open>total_files\<close> is the number of items the manifest lists, over all versions and
  categories: it is so in a new scraper, where both are 0; \<open>_add_to_manifest\<close> keeps it
  so, and when it returns it has appended one item to the list of its category and added
  one to \<open>total_files\<close>; saving the manifest and a whole run keep it so.
\<close>

theorem manifest_total_files_invariant:
  "consistent (manifest (init url out f)) \<and> total_files (manifest (init url out f)) = 0 \<and>
   (consistent (manifest s) \<and> add_to_manifest v c i p s = (r, s') \<longrightarrow>
      consistent (manifest s') \<and>
      (r = Inr () \<longrightarrow>
         total_files (manifest s') = total_files (manifest s) + 1 \<and>
         manifest_count (manifest s') = manifest_count (manifest s) + 1 \<and>
         dict_list c (dict_list v (versions (manifest s'))) =
           dict_list c (dict_list v (versions (manifest s))) @
             [\<lparr>i_name = i, i_path = as_posix (drop (length (output_dir s)) p)\<rparr>])) \<and>
   (consistent (manifest s) \<and> save_manifest e s = (r2, s2) \<longrightarrow> consistent (manifest s2)) \<and>
   (consistent (manifest s) \<and> scrape_all e s = (r3, s3) \<longrightarrow> consistent (manifest s3))"
  using init_consistent [of url out f] add_to_manifest_consistent [of s v c i p r s']
        add_to_manifest_Inr(1,2,3) [of v c i p s "()" s']
        save_manifest_consistent [of s e r2 s2] scrape_all_consistent [of s e r3 s3]
  by blast

theorem manifest_total_files_invariant_witness:
  "consistent (manifest (init default_url [ascii ''output''] no_files)) \<and>
   fst (add_to_manifest Script (ascii ''Vehicles'') (ascii ''Car'')
          [ascii ''output'', ascii ''script'', ascii ''Vehicles'', ascii ''Car.md'']
          (init default_url [ascii ''output''] no_files)) = Inr () \<and>
   total_files (manifest (snd (add_to_manifest Script (ascii ''Vehicles'') (ascii ''Car'')
          [ascii ''output'', ascii ''script'', ascii ''Vehicles'', ascii ''Car.md'']
          (init default_url [ascii ''output''] no_files)))) = 1 \<and>
   manifest_count (manifest (snd (add_to_manifest Script (ascii ''Vehicles'') (ascii ''Car'')
          [ascii ''output'', ascii ''script'', ascii ''Vehicles'', ascii ''Car.md'']
          (init default_url [ascii ''output''] no_files)))) = 1 \<and>
   consistent (manifest (snd (save_manifest (site []) (init default_url [ascii ''output''] no_files)))) \<and>
   consistent (manifest (snd (scrape_all (site [Http_response 200 root_html])
                                (init default_url [ascii ''output''] earlier_run))))"
proof -
  let ?s = "init default_url [ascii ''output''] no_files"
  let ?p = "[ascii ''output'', ascii ''script'', ascii ''Vehicles'', ascii ''Car.md'']"
  let ?add = "add_to_manifest Script (ascii ''Vehicles'') (ascii ''Car'') ?p ?s"
  have ok: "fst ?add = Inr ()"
    by (simp add: add_to_manifest_def Let_def init_def)
  then have add: "?add = (Inr (), snd ?add)"
    by (simp add: prod_eq_iff)
  have zero: "total_files (manifest ?s) = 0" "manifest_count (manifest ?s) = 0"
    by (simp_all add: init_def manifest_count_def)
  show ?thesis
    using manifest_total_files_invariant
            [of default_url "[ascii ''output'']" no_files ?s Script "ascii ''Vehicles''" "ascii ''Car''" ?p
                "Inr ()" "snd ?add" "site []" "fst (save_manifest (site []) ?s)"
                "snd (save_manifest (site []) ?s)"]
          manifest_total_files_invariant
            [of default_url "[ascii ''output'']" earlier_run "init default_url [ascii ''output''] earlier_run"
                Script "ascii ''Vehicles''" "ascii ''Car''" ?p
                "fst (add_to_manifest Script (ascii ''Vehicles'') (ascii ''Car'') ?p (init default_url [ascii ''output''] earlier_run))"
                "snd (add_to_manifest Script (ascii ''Vehicles'') (ascii ''Car'') ?p (init default_url [ascii ''output''] earlier_run))"
                "site [Http_response 200 root_html]"
                "fst (save_manifest (site [Http_response 200 root_html]) (init default_url [ascii ''output''] earlier_run))"
                "snd (save_manifest (site [Http_response 200 root_html]) (init default_url [ascii ''output''] earlier_run))"
                "fst (scrape_all (site [Http_response 200 root_html]) (init default_url [ascii ''output''] earlier_run))"
                "snd (scrape_all (site [Http_response 200 root_html]) (init default_url [ascii ''output''] earlier_run))"]
          ok add zero
    by simp
qed

subsection \<open>Running the small site\<close>

lemma pages_distinct:
  "root_html \<noteq> []" "category_html \<noteq> []" "leaf_html \<noteq> []" "gone_html \<noteq> []"
  "category_html \<noteq> root_html" "leaf_html \<noteq> root_html" "leaf_html \<noteq> category_html"
  "gone_html \<noteq> root_html" "gone_html \<noteq> category_html" "gone_html \<noteq> leaf_html"
  by (simp_all add: root_html_def category_html_def leaf_html_def gone_html_def ascii_def)

lemma site_parser_simps:
  "site_parser root_html = root_soup" "site_parser category_html = category_soup"
  "site_parser leaf_html = leaf_soup" "site_parser gone_html = gone_soup"
  by (simp_all add: site_parser_def pages_distinct)

lemma site_accepts:
  "\<not> rejects_markup (site pages) root_html" "\<not> rejects_markup (site pages) category_html"
  "\<not> rejects_markup (site pages) leaf_html" "\<not> rejects_markup (site pages) gone_html"
  by (simp_all add: site_def root_html_def category_html_def leaf_html_def gone_html_def ascii_def)

lemma site_fields:
  "BeautifulSoup (site pages) = site_parser" "parse_qs (site pages) = site_parse_qs"
  "http (site pages) = serve pages" "now (site pages) = ascii ''2025-01-01T00:00:00''"
  "json_dump (site pages) = (\<lambda>m. ascii ''{}'')"
  "rejects_markup (site pages) = (\<lambda>h. h = ascii ''<![foo]>'')"
  "urlparse_raises (site pages) = (\<lambda>h. h = ascii ''//[?class=1'')"
  "isspace (site pages) c = (c < 128 \<and> ((9 \<le> c \<and> c \<le> 13) \<or> (28 \<le> c \<and> c \<le> 32)))"
  "isalnum (site pages) c = (c < 128 \<and> ((48 \<le> c \<and> c \<le> 57) \<or> (65 \<le> c \<and> c \<le> 90) \<or> (97 \<le> c \<and> c \<le> 122)))"
  by (auto simp: site_def isspace_def isalnum_def)

lemmas soup_defs = root_soup_def category_soup_def category_sidebar_def selected_entry_def
  leaf_soup_def gone_soup_def doc_def vehicles_link_def car_link_def truck_link_def nested_ul_def
  hello_div_def

lemmas bs4_defs = is_sidebar_def is_version_heading_def has_class_def find_all_a_href_def
  List.map_filter_def section_links_def

lemma root_categories:
  "script_links (site pages)
     (section_links (site pages) (ascii ''Script'') (dropWhile (\<lambda>t. \<not> is_sidebar t) (descendants root_soup))) []
   = Inr [vehicles]"
  "engine_links (site pages)
     (section_links (site pages) (ascii ''Engine'') (dropWhile (\<lambda>t. \<not> is_sidebar t) (descendants root_soup)))
     [vehicles]
   = Inr [vehicles]"
  by (simp_all add: soup_defs bs4_defs site_fields ascii_def script_category_def engine_category_def
        site_parse_qs_def vehicles_def strip_def lstrip_def rstrip_def)

lemma root_sidebar: "\<exists>t \<in> set (descendants root_soup). is_sidebar t"
  by (simp add: soup_defs bs4_defs ascii_def)

lemma vehicles_subcategories: "subcategories_of (site pages) vehicles category_soup = Inr [car]"
  by (simp add: subcategories_of_def soup_defs bs4_defs site_fields ascii_def sub_info_def
        site_parse_qs_def vehicles_def car_def strip_def lstrip_def rstrip_def)


lemma hello_markdown: "html_to_markdown (site pages) (Some hello_div) = ascii ''Hello''"
  by (simp add: html_to_markdown_def site_def re_sub_newlines_def flush_newlines_def ascii_def
        strip_def lstrip_def rstrip_def isspace_def)

lemma serve_simps:
  "serve (p # ps) 0 url q = p"
  "serve (p # ps) (Suc k) url q = serve ps k url q"
  "serve [] k url q = Conn_error (ascii ''timed out'')"
  by (simp_all add: serve_def)

lemma n_requests_simps:
  "n_requests [] = 0"
  "n_requests (ev # tr) = (if is_request ev then 1 else 0) + n_requests tr"
  "n_requests (tr @ tr') = n_requests tr + n_requests tr'"
  by (simp_all add: n_requests_def)

lemma get_page_ok:
  "http e (n_requests (trace s)) url ps = Http_response status body \<Longrightarrow>
   status < 400 \<or> 600 \<le> status \<Longrightarrow>
   get_page e url ps s = (Some body, s\<lparr>trace := trace s @ [Sleep_ms 500, Http_get url ps 30]\<rparr>)"
  by (auto simp: get_page_def emit_def Let_def)

lemma get_page_down:
  "http e (n_requests (trace s)) url ps = Conn_error msg \<Longrightarrow>
   get_page e url ps s =
     (None, s\<lparr>trace := trace s @ [Sleep_ms 500, Http_get url ps 30,
                                    Print (Error_fetching url (Conn_error msg))]\<rparr>)"
  by (simp add: get_page_def emit_def Let_def)

lemma parse_main_page_found:
  assumes "http e (n_requests (trace s)) (base_url s) None = Http_response status body"
    and "status < 400 \<or> 600 \<le> status" and "body \<noteq> []" and "\<not> rejects_markup e body"
    and "\<exists>t \<in> set (descendants (BeautifulSoup e body)). is_sidebar t"
    and "script_links e
           (section_links e (ascii ''Script'') (dropWhile (\<lambda>t. \<not> is_sidebar t) (descendants (BeautifulSoup e body)))) []
         = Inr scripts"
    and "engine_links e
           (section_links e (ascii ''Engine'') (dropWhile (\<lambda>t. \<not> is_sidebar t) (descendants (BeautifulSoup e body))))
           scripts
         = Inr categories"
  shows "parse_main_page e s =
           (Inr categories,
            s\<lparr>trace := trace s @ [Print Fetching_main_page, Sleep_ms 500, Http_get (base_url s) None 30,
                                  Print (Found_categories (length categories))]\<rparr>)"
proof -
  have "get_page e (base_url s) None (emit (Print Fetching_main_page) s) =
          (Some body, s\<lparr>trace := trace s @ [Print Fetching_main_page, Sleep_ms 500, Http_get (base_url s) None 30]\<rparr>)"
    using get_page_ok [of e "emit (Print Fetching_main_page) s" "base_url s" None status body] assms(1,2)
    by (simp add: emit_def n_requests_simps)
  then show ?thesis
    using assms(3,4,5,6,7) by (auto simp: parse_main_page_def Let_def emit_def falsy_def)
qed

lemma get_subcategories_down:
  assumes "request_params ci = Inr ps"
    and "http e (n_requests (trace s)) (base_url s) (Some ps) = Conn_error msg"
  shows "get_subcategories e ci s =
           (Inr [], s\<lparr>trace := trace s @ [Print (Fetching_subcategories (ci_name ci)), Sleep_ms 500,
                                         Http_get (base_url s) (Some ps) 30,
                                         Print (Error_fetching (base_url s) (Conn_error msg))]\<rparr>)"
proof -
  let ?s1 = "emit (Print (Fetching_subcategories (ci_name ci))) s"
  have "get_page e (base_url ?s1) (Some ps) ?s1 =
          (None, ?s1\<lparr>trace := trace ?s1 @ [Sleep_ms 500, Http_get (base_url ?s1) (Some ps) 30,
                                    Print (Error_fetching (base_url ?s1) (Conn_error msg))]\<rparr>)"
    using assms(2) by (intro get_page_down) (simp add: emit_def n_requests_simps)
  then show ?thesis
    using assms(1) by (simp add: get_subcategories_def Let_def emit_def falsy_def)
qed

lemma get_subcategories_ok:
  assumes "request_params ci = Inr ps"
    and "http e (n_requests (trace s)) (base_url s) (Some ps) = Http_response status body"
    and "status < 400 \<or> 600 \<le> status" and "body \<noteq> []" and "\<not> rejects_markup e body"
  shows "get_subcategories e ci s =
           (subcategories_of e ci (BeautifulSoup e body),
            s\<lparr>trace := trace s @ [Print (Fetching_subcategories (ci_name ci)), Sleep_ms 500,
                                  Http_get (base_url s) (Some ps) 30]\<rparr>)"
proof -
  let ?s1 = "emit (Print (Fetching_subcategories (ci_name ci))) s"
  have "get_page e (base_url ?s1) (Some ps) ?s1 =
          (Some body, ?s1\<lparr>trace := trace ?s1 @ [Sleep_ms 500, Http_get (base_url ?s1) (Some ps) 30]\<rparr>)"
    using assms(2,3) by (intro get_page_ok) (simp_all add: emit_def n_requests_simps)
  then show ?thesis
    using assms(1,4,5) by (simp add: get_subcategories_def Let_def emit_def falsy_def)
qed


lemma scrape_page_down:
  assumes "request_params ci = Inr ps" and "\<not> path_exists (fs s) (probe_path e (output_dir s) ci)"
    and "http e (n_requests (trace s)) (base_url s) (Some ps) = Conn_error msg"
  shows "scrape_page e ci s =
           (Inr False, s\<lparr>trace := trace s @ [Print (Scraping (ci_name ci)), Sleep_ms 500,
                                            Http_get (base_url s) (Some ps) 30,
                                            Print (Error_fetching (base_url s) (Conn_error msg))]\<rparr>)"
proof -
  let ?s1 = "emit (Print (Scraping (ci_name ci))) s"
  have "get_page e (base_url ?s1) (Some ps) ?s1 =
          (None, ?s1\<lparr>trace := trace ?s1 @ [Sleep_ms 500, Http_get (base_url ?s1) (Some ps) 30,
                                    Print (Error_fetching (base_url ?s1) (Conn_error msg))]\<rparr>)"
    using assms(3) by (intro get_page_down) (simp add: emit_def n_requests_simps)
  then show ?thesis
    using assms(1,2) by (simp add: scrape_page_def Let_def emit_def falsy_def)
qed


lemma scrape_page_content:
  assumes "request_params ci = Inr ps" and "\<not> path_exists (fs s) (probe_path e (output_dir s) ci)"
    and "http e (n_requests (trace s)) (base_url s) (Some ps) = Http_response status body"
    and "status < 400 \<or> 600 \<le> status" and "body \<noteq> []" and "\<not> rejects_markup e body"
    and "extract_content e (BeautifulSoup e body) = Some content_div"
  shows "scrape_page e ci s =
           (case save_content e (html_to_markdown e (Some content_div)) ci
                   (s\<lparr>trace := trace s @ [Print (Scraping (ci_name ci)), Sleep_ms 500,
                                          Http_get (base_url s) (Some ps) 30]\<rparr>) of
              (Inl err, s3) \<Rightarrow> (Inl err, s3)
            | (Inr saved_path, s3) \<Rightarrow> (Inr True, emit (Print (Saved saved_path)) s3))"
proof -
  let ?s1 = "emit (Print (Scraping (ci_name ci))) s"
  have "get_page e (base_url ?s1) (Some ps) ?s1 =
          (Some body, ?s1\<lparr>trace := trace ?s1 @ [Sleep_ms 500, Http_get (base_url ?s1) (Some ps) 30]\<rparr>)"
    using assms(3,4) by (intro get_page_ok) (simp_all add: emit_def n_requests_simps)
  then show ?thesis
    using assms(1,2,5,6,7) by (simp add: scrape_page_def Let_def emit_def falsy_def)
qed

lemma request_vehicles:
  "request_params vehicles =
     Inr [(ascii ''version'', ascii ''script''), (ascii ''category'', ascii ''1''), (ascii ''class'', ascii ''10'')]"
  by (simp add: request_params_def vehicles_def)

lemma request_car:
  "request_params car =
     Inr [(ascii ''version'', ascii ''script''), (ascii ''category'', ascii ''1''), (ascii ''class'', ascii ''11'')]"
  by (simp add: request_params_def car_def)

lemma parse_root:
  assumes "n_requests (trace s) = 0"
  shows "parse_main_page (site (Http_response 200 root_html # rest)) s =
           (Inr [vehicles],
            s\<lparr>trace := trace s @ [Print Fetching_main_page, Sleep_ms 500, Http_get (base_url s) None 30,
                                  Print (Found_categories 1)]\<rparr>)"
  using parse_main_page_found [of "site (Http_response 200 root_html # rest)" s 200 root_html
                                  "[vehicles]" "[vehicles]"]
        assms
  by (simp add: site_fields(1-5) site_parser_simps pages_distinct serve_simps root_categories root_sidebar
        site_accepts)

lemma earlier_run_simps:
  "path_exists earlier_run [ascii ''output'', ascii ''script'', ascii ''Vehicles'', ascii ''Vehicles.md'']"
  "\<not> path_exists earlier_run [ascii ''output'', ascii ''script'', ascii ''Vehicles'', ascii ''Car.md'']"
  "is_dir earlier_run [ascii ''output'']"
  "earlier_run [ascii ''output'', ascii ''manifest.json''] = None"
  "earlier_run [ascii ''output'', ascii ''INDEX.md''] = None"
  by (simp_all add: earlier_run_def path_exists_def is_dir_def ascii_def)

lemma open_write_ok:
  "p \<noteq> [] \<Longrightarrow> fs s p \<noteq> Some Dir \<Longrightarrow> is_dir (fs s) (butlast p) \<Longrightarrow>
   open_write p written s =
     (Inr (), s\<lparr>fs := (fs s)(p \<mapsto> File written), trace := trace s @ [Write_file p written]\<rparr>)"
  by (simp add: open_write_def emit_def)

lemma create_markdown_index_in_dir:
  assumes "is_dir (fs s) (output_dir s)" and "fs s (index_path s) \<noteq> Some Dir"
  shows "fst (create_markdown_index s) = Inr ()"
proof -
  have "index_path s \<noteq> []" "butlast (index_path s) = output_dir s"
    by (simp_all add: index_path_def joinpath_def ascii_def)
  then have "open_write (index_path s) (index_text (manifest s)) s =
          (Inr (), s\<lparr>fs := (fs s)(index_path s \<mapsto> File (index_text (manifest s))),
                      trace := trace s @ [Write_file (index_path s) (index_text (manifest s))]\<rparr>)"
    using assms by (intro open_write_ok) simp_all
  then show ?thesis
    by (simp add: create_markdown_index_def)
qed

lemma save_manifest_in_dir:
  assumes "is_dir (fs s) (output_dir s)"
    and "fs s (manifest_path s) \<noteq> Some Dir" and "fs s (index_path s) \<noteq> Some Dir"
  shows "fst (save_manifest e s) = Inr ()"
proof -
  have ne: "manifest_path s \<noteq> []" "manifest_path s \<noteq> index_path s"
    "butlast (manifest_path s) = output_dir s" "output_dir s \<noteq> manifest_path s"
    by (simp_all add: manifest_path_def index_path_def joinpath_def ascii_def)
  define s1 where "s1 = s\<lparr>manifest := (manifest s)\<lparr>generated_at := Some (now e)\<rparr>\<rparr>"
  define s2 where "s2 = s1\<lparr>fs := (fs s1)(manifest_path s1 \<mapsto> File (json_dump e (manifest s1))),
                   trace := trace s1 @ [Write_file (manifest_path s1) (json_dump e (manifest s1))]\<rparr>"
  define s3 where "s3 = emit (Print (Manifest_saved (manifest_path s1))) s2"
  have p1: "manifest_path s1 = manifest_path s" "fs s1 = fs s"
    by (simp_all add: s1_def manifest_path_def)
  have 1: "open_write (manifest_path s1) (json_dump e (manifest s1)) s1 = (Inr (), s2)"
    unfolding s2_def using assms ne by (intro open_write_ok) (simp_all add: p1)
  have p3: "output_dir s3 = output_dir s" "index_path s3 = index_path s"
    "fs s3 = (fs s)(manifest_path s \<mapsto> File (json_dump e (manifest s1)))"
    by (simp_all add: s3_def s2_def s1_def emit_def index_path_def manifest_path_def)
  have "fst (create_markdown_index s3) = Inr ()"
    using assms ne by (intro create_markdown_index_in_dir) (auto simp: p3 is_dir_def)
  then show ?thesis
    using 1 by (simp add: save_manifest_def Let_def s1_def [symmetric] s3_def [symmetric])
qed

lemma output_paths:
  "manifest_path s = output_dir s @ [ascii ''manifest.json'']"
  "index_path s = output_dir s @ [ascii ''INDEX.md'']"
  by (simp_all add: manifest_path_def index_path_def joinpath_def ascii_def)

lemma scrape_all_completed:
  assumes "parse_main_page e (banner s) = (Inr categories, s1)" and "categories \<noteq> []"
    and "scrape_categories e 1 (length categories) categories (0, 0) s1 = (Inr totals, s2)"
    and "fst (save_manifest e (emit (Print Generating_manifest) s2)) = Inr ()"
  shows "fst (scrape_all e s) = Inr ()"
    and "\<exists>written. drop (length (trace s2)) (trace (snd (scrape_all e s))) =
           [Print Generating_manifest, Write_file (manifest_path s2) (fst written),
            Print (Manifest_saved (manifest_path s2)), Write_file (index_path s2) (snd written),
            Print (Index_saved (index_path s2))] @ summary totals (output_dir s2) \<and>
           take (length (trace s2)) (trace (snd (scrape_all e s))) = trace s2"
    and "manifest (snd (scrape_all e s)) = (manifest s2)\<lparr>generated_at := Some (now e)\<rparr>"
proof -
  let ?s3 = "emit (Print Generating_manifest) s2"
  obtain s4 where sm: "save_manifest e ?s3 = (Inr (), s4)"
    using assms(4) by (cases "save_manifest e ?s3") auto
  note c = save_manifest_cases [OF sm]
  have res: "scrape_all e s = (Inr (), s4\<lparr>trace := trace s4 @ summary totals (output_dir s4)\<rparr>)"
    using assms(1,2,3) sm by (simp add: scrape_all_def)
  show "fst (scrape_all e s) = Inr ()"
    by (simp add: res)
  show "manifest (snd (scrape_all e s)) = (manifest s2)\<lparr>generated_at := Some (now e)\<rparr>"
    using c by (simp add: res emit_def)
  have "trace (snd (scrape_all e s)) = trace s2 @
           [Print Generating_manifest, Write_file (manifest_path s2) (json_dump e (manifest s4)),
            Print (Manifest_saved (manifest_path s2)), Write_file (index_path s2) (index_text (manifest s4)),
            Print (Index_saved (index_path s2))] @ summary totals (output_dir s2)"
    using c by (simp add: res emit_def manifest_path_def index_path_def)
  then have "drop (length (trace s2)) (trace (snd (scrape_all e s))) =
           [Print Generating_manifest, Write_file (manifest_path s2) (fst (json_dump e (manifest s4), index_text (manifest s4))),
            Print (Manifest_saved (manifest_path s2)), Write_file (index_path s2) (snd (json_dump e (manifest s4), index_text (manifest s4))),
            Print (Index_saved (index_path s2))] @ summary totals (output_dir s2) \<and>
           take (length (trace s2)) (trace (snd (scrape_all e s))) = trace s2"
    by simp
  then show "\<exists>written. drop (length (trace s2)) (trace (snd (scrape_all e s))) =
           [Print Generating_manifest, Write_file (manifest_path s2) (fst written),
            Print (Manifest_saved (manifest_path s2)), Write_file (index_path s2) (snd written),
            Print (Index_saved (index_path s2))] @ summary totals (output_dir s2) \<and>
           take (length (trace s2)) (trace (snd (scrape_all e s))) = trace s2"
    by blast
qed


lemma scrape_all_aborted:
  assumes "parse_main_page e (banner s) = (Inr categories, s1)" and "categories \<noteq> []"
  shows "scrape_categories e 1 (length categories) categories (0, 0) s1 = (Inl err, s2) \<Longrightarrow>
           scrape_all e s = (Inl err, s2)"
    and "scrape_categories e 1 (length categories) categories (0, 0) s1 = (Inr totals, s2) \<Longrightarrow>
           save_manifest e (emit (Print Generating_manifest) s2) = (Inl err, s4) \<Longrightarrow>
           scrape_all e s = (Inl err, s4)"
  using assms by (simp_all add: scrape_all_def)

lemma save_manifest_no_dir:
  assumes "output_dir s \<noteq> []" and "fs s (output_dir s) = None" and "fs s (manifest_path s) = None"
  shows "save_manifest e s =
           (Inl (FileNotFoundError (manifest_path s)),
            s\<lparr>manifest := (manifest s)\<lparr>generated_at := Some (now e)\<rparr>\<rparr>)"
proof -
  have "manifest_path s \<noteq> []" "butlast (manifest_path s) = output_dir s"
    by (simp_all add: output_paths)
  then show ?thesis
    using assms by (simp add: save_manifest_def Let_def open_write_def is_dir_def manifest_path_def)
qed

lemma parse_main_page_one_request:
  "parse_main_page e s = (categories, s') \<Longrightarrow> n_requests (trace s') = n_requests (trace s) + 1"
  by (auto simp: parse_main_page_def get_page_def Let_def emit_def n_requests_simps
           split: if_splits response.splits prod.splits sum.splits)

lemma n_requests_banner: "n_requests (trace (banner s)) = n_requests (trace s)"
  by (simp add: banner_def emit_def n_requests_simps)

text \<open>A run over the output of an earlier one in which the page of the only leaf cannot
  be fetched: the run counts the failure and goes on to the manifest.\<close>

lemma failing_leaf_run:
  defines "w \<equiv> site [Http_response 200 root_html, Http_response 200 category_html]"
    and "s0 \<equiv> init default_url [ascii ''output''] earlier_run"
  shows "parse_main_page w (banner s0) =
           (Inr [vehicles],
            (banner s0)\<lparr>trace := trace (banner s0) @
               [Print Fetching_main_page, Sleep_ms 500, Http_get default_url None 30,
                Print (Found_categories 1)]\<rparr>)"
    and "fst (scrape_all w s0) = Inr ()"
    and "n_writes_to [ascii ''output'', ascii ''manifest.json''] (trace (snd (scrape_all w s0))) = 1"
    and "n_writes_to [ascii ''output'', ascii ''INDEX.md''] (trace (snd (scrape_all w s0))) = 1"
    and "drop (length (trace (snd (scrape_all w s0))) - 6) (trace (snd (scrape_all w s0))) =
           summary (0, 1) [ascii ''output'']"
proof -
  define s1 where "s1 = (banner s0)\<lparr>trace := trace (banner s0) @
               [Print Fetching_main_page, Sleep_ms 500, Http_get default_url None 30,
                Print (Found_categories 1)]\<rparr>"
  have b: "n_requests (trace (banner s0)) = 0" "base_url (banner s0) = default_url"
    by (simp_all add: banner_def emit_def s0_def init_def n_requests_simps)
  show pm: "parse_main_page w (banner s0) =
           (Inr [vehicles],
            (banner s0)\<lparr>trace := trace (banner s0) @
               [Print Fetching_main_page, Sleep_ms 500, Http_get default_url None 30,
                Print (Found_categories 1)]\<rparr>)"
    unfolding w_def using parse_root [OF b(1)] by (simp add: b(2))
  then have pm1: "parse_main_page w (banner s0) = (Inr [vehicles], s1)"
    by (simp add: s1_def)
  have f1: "base_url s1 = default_url" "output_dir s1 = [ascii ''output'']" "fs s1 = earlier_run"
    "n_requests (trace s1) = 1" "n_writes_to p (trace s1) = 0"
    for p
    by (simp_all add: s1_def banner_def emit_def s0_def init_def n_requests_simps count_simps)
  define sp where "sp = emit (Print (Processing 1 1 (ci_name vehicles))) s1"
  define s2 where "s2 = sp\<lparr>trace := trace sp @
       [Print (Fetching_subcategories (ci_name vehicles)), Sleep_ms 500,
        Http_get (base_url sp)
          (Some [(ascii ''version'', ascii ''script''), (ascii ''category'', ascii ''1''), (ascii ''class'', ascii ''10'')]) 30]\<rparr>"
  have "get_subcategories w vehicles sp =
          (subcategories_of w vehicles (BeautifulSoup w category_html), s2)"
    unfolding s2_def
    by (rule get_subcategories_ok [OF request_vehicles, of _ _ 200])
       (simp_all add: w_def site_fields(3) sp_def emit_def n_requests_simps f1 serve_def pages_distinct
          site_accepts)
  then have gs: "get_subcategories w vehicles sp = (Inr [car], s2)"
    by (simp add: w_def site_fields(1) site_parser_simps vehicles_subcategories)
  have f2: "base_url s2 = default_url" "output_dir s2 = [ascii ''output'']" "fs s2 = earlier_run"
    "n_requests (trace s2) = 2" "n_writes_to p (trace s2) = 0"
    for p
    by (simp_all add: s2_def sp_def emit_def f1 n_requests_simps count_simps)
  define s3 where "s3 = s2\<lparr>trace := trace s2 @
       [Print (Scraping (ci_name car)), Sleep_ms 500,
        Http_get (base_url s2)
          (Some [(ascii ''version'', ascii ''script''), (ascii ''category'', ascii ''1''), (ascii ''class'', ascii ''11'')]) 30,
        Print (Error_fetching (base_url s2) (Conn_error (ascii ''timed out'')))]\<rparr>"
  have pg: "scrape_page w car s2 = (Inr False, s3)"
    unfolding s3_def
    by (rule scrape_page_down [OF request_car])
       (simp_all add: w_def site_fields(3) f2 probe_car earlier_run_simps n_requests_simps serve_def)
  have loop: "scrape_categories w 1 (length [vehicles]) [vehicles] (0, 0) s1 = (Inr (0, 1), s3)"
    using gs [unfolded sp_def] pg by (simp add: scrape_category_def Let_def tally_def)
  have f3: "output_dir s3 = [ascii ''output'']" "fs s3 = earlier_run" "n_writes_to p (trace s3) = 0"
    for p
    by (simp_all add: s3_def emit_def f2 count_simps)
  have sm: "fst (save_manifest w (emit (Print Generating_manifest) s3)) = Inr ()"
    by (rule save_manifest_in_dir)
       (simp_all add: emit_def f3 output_paths earlier_run_simps)
  note fin = scrape_all_completed [OF pm1 _ loop sm]
  show "fst (scrape_all w s0) = Inr ()"
    using fin(1) by simp
  obtain written where tr:
    "drop (length (trace s3)) (trace (snd (scrape_all w s0))) =
           [Print Generating_manifest, Write_file (manifest_path s3) (fst written),
            Print (Manifest_saved (manifest_path s3)), Write_file (index_path s3) (snd written),
            Print (Index_saved (index_path s3))] @ summary (0, 1) (output_dir s3)"
    "take (length (trace s3)) (trace (snd (scrape_all w s0))) = trace s3"
    using fin(2) by auto
  have whole: "trace (snd (scrape_all w s0)) = trace s3 @
           [Print Generating_manifest, Write_file (manifest_path s3) (fst written),
            Print (Manifest_saved (manifest_path s3)), Write_file (index_path s3) (snd written),
            Print (Index_saved (index_path s3))] @ summary (0, 1) (output_dir s3)"
    using tr append_take_drop_id [of "length (trace s3)" "trace (snd (scrape_all w s0))"] by simp
  show "n_writes_to [ascii ''output'', ascii ''manifest.json''] (trace (snd (scrape_all w s0))) = 1"
    by (simp add: whole count_simps f3 summary_def output_paths) (simp add: ascii_def)
  show "n_writes_to [ascii ''output'', ascii ''INDEX.md''] (trace (snd (scrape_all w s0))) = 1"
    by (simp add: whole count_simps f3 summary_def output_paths) (simp add: ascii_def)
  show "drop (length (trace (snd (scrape_all w s0))) - 6) (trace (snd (scrape_all w s0))) =
           summary (0, 1) [ascii ''output'']"
    by (simp add: whole f3 summary_def)
qed

text \<open>
  A first run, in a directory where nothing is yet, with a server that answers the first
  request only, step by step.
\<close>

lemma first_run_all_failed:
  defines "w \<equiv> site [Http_response 200 root_html]"
    and "s0 \<equiv> init default_url [ascii ''output''] no_files"
  shows "fst (parse_main_page w (banner s0)) = Inr [vehicles]"
    and "fst (scrape_all w s0) = Inl (FileNotFoundError [ascii ''output'', ascii ''manifest.json''])"
    and "n_writes (trace (snd (scrape_all w s0))) = 0"
    and "Print Scraping_complete \<notin> set (trace (snd (scrape_all w s0)))"
proof -
  define s1 where "s1 = (banner s0)\<lparr>trace := trace (banner s0) @
               [Print Fetching_main_page, Sleep_ms 500, Http_get default_url None 30,
                Print (Found_categories 1)]\<rparr>"
  have b: "n_requests (trace (banner s0)) = 0" "base_url (banner s0) = default_url"
    by (simp_all add: banner_def emit_def s0_def init_def n_requests_simps)
  have pm1: "parse_main_page w (banner s0) = (Inr [vehicles], s1)"
    unfolding w_def s1_def using parse_root [OF b(1), of "[]"] by (simp add: b(2))
  then show "fst (parse_main_page w (banner s0)) = Inr [vehicles]"
    by simp
  have f1: "base_url s1 = default_url" "output_dir s1 = [ascii ''output'']" "fs s1 = no_files"
    "n_requests (trace s1) = 1" "n_writes (trace s1) = 0" "Print Scraping_complete \<notin> set (trace s1)"
    by (simp_all add: s1_def banner_def emit_def s0_def init_def n_requests_simps count_simps)
  define sp where "sp = emit (Print (Processing 1 1 (ci_name vehicles))) s1"
  define s2 where "s2 = sp\<lparr>trace := trace sp @
       [Print (Fetching_subcategories (ci_name vehicles)), Sleep_ms 500,
        Http_get (base_url sp)
          (Some [(ascii ''version'', ascii ''script''), (ascii ''category'', ascii ''1''), (ascii ''class'', ascii ''10'')]) 30,
        Print (Error_fetching (base_url sp) (Conn_error (ascii ''timed out'')))]\<rparr>"
  have gs: "get_subcategories w vehicles sp = (Inr [], s2)"
    unfolding s2_def
    by (rule get_subcategories_down [OF request_vehicles])
       (simp add: w_def site_fields(3) sp_def emit_def n_requests_simps f1 serve_def)
  define sn where "sn = emit (Print No_subcategories_found) s2"
  have f2: "base_url sn = default_url" "output_dir sn = [ascii ''output'']" "fs sn = no_files"
    "n_requests (trace sn) = 2" "n_writes (trace sn) = 0" "Print Scraping_complete \<notin> set (trace sn)"
    by (simp_all add: sn_def s2_def sp_def emit_def f1 n_requests_simps count_simps)
  define s3 where "s3 = sn\<lparr>trace := trace sn @
       [Print (Scraping (ci_name vehicles)), Sleep_ms 500,
        Http_get (base_url sn)
          (Some [(ascii ''version'', ascii ''script''), (ascii ''category'', ascii ''1''), (ascii ''class'', ascii ''10'')]) 30,
        Print (Error_fetching (base_url sn) (Conn_error (ascii ''timed out'')))]\<rparr>"
  have pg: "scrape_page w vehicles sn = (Inr False, s3)"
    unfolding s3_def
    by (rule scrape_page_down [OF request_vehicles])
       (simp_all add: w_def site_fields(3) f2 probe_vehicles no_files_def path_exists_def
          n_requests_simps serve_def)
  have loop: "scrape_categories w 1 (length [vehicles]) [vehicles] (0, 0) s1 = (Inr (0, 1), s3)"
    using gs [unfolded sp_def] pg [unfolded sn_def] by (simp add: scrape_category_def Let_def tally_def)
  define sg where "sg = emit (Print Generating_manifest) s3"
  have f3: "output_dir sg = [ascii ''output'']" "fs sg = no_files" "n_writes (trace sg) = 0"
    "Print Scraping_complete \<notin> set (trace sg)"
    by (simp_all add: sg_def s3_def emit_def f2 count_simps)
  have sm: "save_manifest w sg =
          (Inl (FileNotFoundError (manifest_path sg)),
           sg\<lparr>manifest := (manifest sg)\<lparr>generated_at := Some (now w)\<rparr>\<rparr>)"
    by (rule save_manifest_no_dir) (simp_all add: f3 no_files_def)
  have res: "scrape_all w s0 =
          (Inl (FileNotFoundError (manifest_path sg)),
           sg\<lparr>manifest := (manifest sg)\<lparr>generated_at := Some (now w)\<rparr>\<rparr>)"
    using scrape_all_aborted(2) [OF pm1 _ loop sm [unfolded sg_def]] by (simp add: sg_def)
  show "fst (scrape_all w s0) = Inl (FileNotFoundError [ascii ''output'', ascii ''manifest.json''])"
    by (simp add: res output_paths f3)
  show "n_writes (trace (snd (scrape_all w s0))) = 0"
    by (simp add: res f3)
  show "Print Scraping_complete \<notin> set (trace (snd (scrape_all w s0)))"
    by (simp add: res f3)
qed

lemma scrape_all_finished:
  assumes "parse_main_page e (banner s) = (Inr categories, s1)" and "categories \<noteq> []"
    and "scrape_all e s = (Inr u, s')"
  shows "\<exists>totals s2.
           scrape_categories e 1 (length categories) categories (0, 0) s1 = (Inr totals, s2) \<and>
           booked s s2 \<and>
           fst totals + int (n_saved (trace s) + n_skipped (trace s)) =
             int (n_saved (trace s2) + n_skipped (trace s2)) \<and>
           manifest s' = (manifest s2)\<lparr>generated_at := Some (now e)\<rparr> \<and>
           trace s' = trace s2 @
             [Print Generating_manifest,
              Write_file (manifest_path s) (json_dump e (manifest s')),
              Print (Manifest_saved (manifest_path s)),
              Write_file (index_path s) (index_text (manifest s')),
              Print (Index_saved (index_path s))] @
             summary totals (output_dir s)"
proof -
  obtain r2 s2 where loop:
    "scrape_categories e 1 (length categories) categories (0, 0) s1 = (r2, s2)" "booked s s2"
    "case r2 of
       Inl err \<Rightarrow> Inr u = Inl err \<and> s' = s2 \<and> raised_by_page err
     | Inr totals \<Rightarrow>
         fst totals + int (n_saved (trace s) + n_skipped (trace s)) =
           int (n_saved (trace s2) + n_skipped (trace s2)) \<and>
         output_dir s' = output_dir s \<and>
         manifest s' = (manifest s2)\<lparr>generated_at := Some (now e)\<rparr> \<and>
         (case Inr u of
            Inl err \<Rightarrow> is_OSError err
          | Inr u \<Rightarrow>
              trace s' = trace s2 @
                [Print Generating_manifest,
                 Write_file (manifest_path s) (json_dump e (manifest s')),
                 Print (Manifest_saved (manifest_path s)),
                 Write_file (index_path s) (index_text (manifest s')),
                 Print (Index_saved (index_path s))] @
                summary totals (output_dir s))"
    using scrape_all_cases(3) [OF assms(1,3,2)] by blast
  then obtain totals where "r2 = Inr totals"
    by (cases r2) auto
  with loop show ?thesis by auto
qed

lemma summary_counts:
  "n_saved (summary totals out) = 0" "n_skipped (summary totals out) = 0"
  "n_writes (summary totals out) = 0" "n_writes_to p (summary totals out) = 0"
  by (simp_all add: summary_def count_simps)

lemma manifest_not_index: "manifest_path s \<noteq> index_path s"
  by (simp add: output_paths ascii_def)

text \<open>
  The ways a run can end once the root page is parsed. A root page that yields no
  category stops the run there: one request, nothing written, the manifest as it was.
  Every other run either ends in an exception (of the file system, of \<open>urlparse\<close> or of
  the parser), or goes through all categories and then, whatever the number of leaves that
  failed, writes the manifest and the index, each exactly once, and prints the summary with
  the two counts last.
\<close>

lemma scrape_all_outcomes:
  "parse_main_page e (banner s) = (Inr categories, s1) \<and> scrape_all e s = (r, s') \<longrightarrow>
     (categories = [] \<longrightarrow>
        r = Inr () \<and> s' = emit (Print Failed_to_parse_main_page) s1 \<and>
        n_requests (trace s') = n_requests (trace s) + 1 \<and>
        n_writes (trace s') = n_writes (trace s) \<and> fs s' = fs s \<and> manifest s' = manifest s) \<and>
     (categories \<noteq> [] \<longrightarrow>
        (case r of
           Inl err \<Rightarrow> raised_by_page err
         | Inr u \<Rightarrow>
             (\<exists>totals s2.
                scrape_categories e 1 (length categories) categories (0, 0) s1 = (Inr totals, s2) \<and>
                trace s' = trace s2 @
                  [Print Generating_manifest,
                   Write_file (manifest_path s) (json_dump e (manifest s')),
                   Print (Manifest_saved (manifest_path s)),
                   Write_file (index_path s) (index_text (manifest s')),
                   Print (Index_saved (index_path s))] @
                  summary totals (output_dir s)) \<and>
             n_writes_to (manifest_path s) (trace s') = n_writes_to (manifest_path s) (trace s) + 1 \<and>
             n_writes_to (index_path s) (trace s') = n_writes_to (index_path s) (trace s) + 1))"
proof (intro impI)
  assume both: "parse_main_page e (banner s) = (Inr categories, s1) \<and> scrape_all e s = (r, s')"
  then have pm: "parse_main_page e (banner s) = (Inr categories, s1)" and run: "scrape_all e s = (r, s')"
    by simp_all
  note c = scrape_all_cases [OF pm run]
  have stop: "r = Inr () \<and> s' = emit (Print Failed_to_parse_main_page) s1 \<and>
        n_requests (trace s') = n_requests (trace s) + 1 \<and>
        n_writes (trace s') = n_writes (trace s) \<and> fs s' = fs s \<and> manifest s' = manifest s"
    if "categories = []"
  proof -
    have res: "r = Inr ()" "s' = emit (Print Failed_to_parse_main_page) s1"
      using c(2) that by simp_all
    have "n_requests (trace s1) = n_requests (trace s) + 1"
      using parse_main_page_one_request [OF pm] by (simp add: n_requests_banner)
    then show ?thesis
      using res c(1) by (simp add: quiet_def emit_def n_requests_simps count_simps n_writes_def)
  qed
  have go: "case r of
           Inl err \<Rightarrow> raised_by_page err
         | Inr u \<Rightarrow>
             (\<exists>totals s2.
                scrape_categories e 1 (length categories) categories (0, 0) s1 = (Inr totals, s2) \<and>
                trace s' = trace s2 @
                  [Print Generating_manifest,
                   Write_file (manifest_path s) (json_dump e (manifest s')),
                   Print (Manifest_saved (manifest_path s)),
                   Write_file (index_path s) (index_text (manifest s')),
                   Print (Index_saved (index_path s))] @
                  summary totals (output_dir s)) \<and>
             n_writes_to (manifest_path s) (trace s') = n_writes_to (manifest_path s) (trace s) + 1 \<and>
             n_writes_to (index_path s) (trace s') = n_writes_to (index_path s) (trace s) + 1"
    if nonempty: "categories \<noteq> []"
  proof (cases r)
    case (Inl err)
    obtain r2 s2 where
      "case r2 of
         Inl err \<Rightarrow> r = Inl err \<and> s' = s2 \<and> raised_by_page err
       | Inr totals \<Rightarrow>
           fst totals + int (n_saved (trace s) + n_skipped (trace s)) =
             int (n_saved (trace s2) + n_skipped (trace s2)) \<and>
           output_dir s' = output_dir s \<and>
           manifest s' = (manifest s2)\<lparr>generated_at := Some (now e)\<rparr> \<and>
           (case r of
              Inl err \<Rightarrow> is_OSError err
            | Inr u \<Rightarrow>
                trace s' = trace s2 @
                  [Print Generating_manifest,
                   Write_file (manifest_path s) (json_dump e (manifest s')),
                   Print (Manifest_saved (manifest_path s)),
                   Write_file (index_path s) (index_text (manifest s')),
                   Print (Index_saved (index_path s))] @
                  summary totals (output_dir s))"
      using c(3) [OF nonempty] by blast
    then have "raised_by_page err"
      using Inl by (cases r2) (auto simp: raised_by_page_def)
    then show ?thesis using Inl by simp
  next
    case (Inr u)
    obtain totals s2 where fin:
      "scrape_categories e 1 (length categories) categories (0, 0) s1 = (Inr totals, s2)"
      "booked s s2"
      "trace s' = trace s2 @
           [Print Generating_manifest,
            Write_file (manifest_path s) (json_dump e (manifest s')),
            Print (Manifest_saved (manifest_path s)),
            Write_file (index_path s) (index_text (manifest s')),
            Print (Index_saved (index_path s))] @
           summary totals (output_dir s)"
      using scrape_all_finished [OF pm nonempty run [unfolded Inr]] by blast
    have "n_writes_to (manifest_path s) (trace s') = n_writes_to (manifest_path s) (trace s) + 1"
      "n_writes_to (index_path s) (trace s') = n_writes_to (index_path s) (trace s) + 1"
      using fin(2) manifest_not_index [of s]
      by (auto simp: fin(3) booked_def count_simps summary_counts)
    then show ?thesis
      using Inr fin(1,3) by auto
  qed
  show "(categories = [] \<longrightarrow>
        r = Inr () \<and> s' = emit (Print Failed_to_parse_main_page) s1 \<and>
        n_requests (trace s') = n_requests (trace s) + 1 \<and>
        n_writes (trace s') = n_writes (trace s) \<and> fs s' = fs s \<and> manifest s' = manifest s) \<and>
     (categories \<noteq> [] \<longrightarrow>
        (case r of
           Inl err \<Rightarrow> raised_by_page err
         | Inr u \<Rightarrow>
             (\<exists>totals s2.
                scrape_categories e 1 (length categories) categories (0, 0) s1 = (Inr totals, s2) \<and>
                trace s' = trace s2 @
                  [Print Generating_manifest,
                   Write_file (manifest_path s) (json_dump e (manifest s')),
                   Print (Manifest_saved (manifest_path s)),
                   Write_file (index_path s) (index_text (manifest s')),
                   Print (Index_saved (index_path s))] @
                  summary totals (output_dir s)) \<and>
             n_writes_to (manifest_path s) (trace s') = n_writes_to (manifest_path s) (trace s) + 1 \<and>
             n_writes_to (index_path s) (trace s') = n_writes_to (index_path s) (trace s) + 1))"
    using stop go by blast
qed

text \<open>
  C2. What the specification says of every run does not hold of a first run in which no
  page is saved. The output directory is created only when a page is saved
  (\<open>save_content\<close>), and \<open>save_manifest\<close> opens \<open>output/manifest.json\<close> without creating
  it. On a first run over a server that answers the request for the root page and no other,
  the root page yields one category, every later fetch fails and is counted, and then
  \<open>open\<close> raises \<open>FileNotFoundError\<close>: the run ends in that exception, with no manifest,
  no index and no summary.
\<close>

theorem first_run_without_saved_page_raises:
  "fst (parse_main_page (site [Http_response 200 root_html])
          (banner (init default_url [ascii ''output''] no_files))) = Inr [vehicles] \<and>
   fst (scrape_all (site [Http_response 200 root_html]) (init default_url [ascii ''output''] no_files)) =
     Inl (FileNotFoundError [ascii ''output'', ascii ''manifest.json'']) \<and>
   n_writes (trace (snd (scrape_all (site [Http_response 200 root_html])
                           (init default_url [ascii ''output''] no_files)))) = 0 \<and>
   Print Scraping_complete \<notin> set (trace (snd (scrape_all (site [Http_response 200 root_html])
                           (init default_url [ascii ''output''] no_files))))"
  using first_run_all_failed by simp



subsection \<open>Pages without content\<close>








subsection \<open>The leaves of a category\<close>

lemma map_filter_sub_info:
  assumes "\<forall>hl \<in> set links. \<not> urlparse_raises e (fst hl)"
  shows "List.map_filter (\<lambda>hl. parsed (sub_info e ci hl)) links =
     map (\<lambda>hl. \<lparr>ci_version = ci_version ci, ci_category = ci_category ci,
                 ci_class = (if ci_version ci = Script then parse_qs e (fst hl) (ascii ''class'') else None),
                 ci_function = (if ci_version ci = Script then None else parse_qs e (fst hl) (ascii ''function'')),
                 ci_name = strip e (get_text (snd hl)),
                 ci_category_name = Some (ci_name ci)\<rparr>)
         (filter (has_version_key e ci) links)"
  using assms
proof (induction links)
  case Nil
  show ?case by (simp add: List.map_filter_simps)
next
  case (Cons hl links)
  then show ?case
    by (cases "ci_version ci")
       (auto simp: List.map_filter_simps parsed_def sub_info_def has_version_key_def Let_def)
qed

lemma sub_links_parsed:
  assumes "\<forall>hl \<in> set links. \<not> urlparse_raises e (fst hl)"
  shows "sub_links e ci links [] =
     Inr (map (\<lambda>hl. \<lparr>ci_version = ci_version ci, ci_category = ci_category ci,
                 ci_class = (if ci_version ci = Script then parse_qs e (fst hl) (ascii ''class'') else None),
                 ci_function = (if ci_version ci = Script then None else parse_qs e (fst hl) (ascii ''function'')),
                 ci_name = strip e (get_text (snd hl)),
                 ci_category_name = Some (ci_name ci)\<rparr>)
            (filter (has_version_key e ci) links))"
  using assms map_filter_sub_info [OF assms, of ci] by (simp add: sub_links_eq sub_info_Inr)

text \<open>One link whose address \<open>urlparse\<close> refuses ends \<open>get_subcategories\<close> in \<open>ValueError\<close>.\<close>

lemma sub_links_raise:
  "\<exists>hl \<in> set links. urlparse_raises e (fst hl) \<Longrightarrow> sub_links e ci links acc = Inl ValueError"
  by (auto simp: sub_links_eq sub_info_Inr)

lemma subcategories_of_raise:
  assumes "find is_sidebar (descendants soup) = Some sidebar"
    and "find (\<lambda>t. is_tag (ascii ''li'') t \<and> has_class e (ascii ''selected'') t) (descendants sidebar) = Some selected_li"
    and "find (is_tag (ascii ''ul'')) (descendants selected_li) = Some nested"
    and "\<exists>hl \<in> set (find_all_a_href nested). urlparse_raises e (fst hl)"
  shows "subcategories_of e ci soup = Inl ValueError"
  using assms(1,2,3) sub_links_raise [OF assms(4)] by (simp add: subcategories_of_def)

lemma subcategories_of_cases:
  "(find is_sidebar (descendants soup) = None \<longrightarrow> subcategories_of e ci soup = Inr []) \<and>
   (find is_sidebar (descendants soup) = Some sidebar \<and>
    find (\<lambda>t. is_tag (ascii ''li'') t \<and> has_class e (ascii ''selected'') t) (descendants sidebar) = Some selected_li \<and>
    find (is_tag (ascii ''ul'')) (descendants selected_li) = Some nested \<and>
    (\<forall>hl \<in> set (find_all_a_href nested). \<not> urlparse_raises e (fst hl)) \<longrightarrow>
      subcategories_of e ci soup =
        Inr (if filter (has_version_key e ci) (find_all_a_href nested) = [] then [ci]
             else map (\<lambda>hl. \<lparr>ci_version = ci_version ci, ci_category = ci_category ci,
                 ci_class = (if ci_version ci = Script then parse_qs e (fst hl) (ascii ''class'') else None),
                 ci_function = (if ci_version ci = Script then None else parse_qs e (fst hl) (ascii ''function'')),
                 ci_name = strip e (get_text (snd hl)),
                 ci_category_name = Some (ci_name ci)\<rparr>)
               (filter (has_version_key e ci) (find_all_a_href nested)))) \<and>
   (find is_sidebar (descendants soup) = Some sidebar \<and>
    (find (\<lambda>t. is_tag (ascii ''li'') t \<and> has_class e (ascii ''selected'') t) (descendants sidebar) = None \<or>
     (find (\<lambda>t. is_tag (ascii ''li'') t \<and> has_class e (ascii ''selected'') t) (descendants sidebar) = Some selected_li \<and>
      find (is_tag (ascii ''ul'')) (descendants selected_li) = None)) \<longrightarrow>
      subcategories_of e ci soup = Inr [ci])"
  by (auto simp: subcategories_of_def Let_def sub_links_parsed)

lemma get_subcategories_empty:
  assumes "request_params ci = Inr ps"
    and "http e (n_requests (trace s)) (base_url s) (Some ps) = Http_response status []"
    and "status < 400 \<or> 600 \<le> status"
  shows "get_subcategories e ci s =
           (Inr [], s\<lparr>trace := trace s @ [Print (Fetching_subcategories (ci_name ci)), Sleep_ms 500,
                                         Http_get (base_url s) (Some ps) 30]\<rparr>)"
proof -
  let ?s1 = "emit (Print (Fetching_subcategories (ci_name ci))) s"
  have "get_page e (base_url ?s1) (Some ps) ?s1 =
          (Some [], ?s1\<lparr>trace := trace ?s1 @ [Sleep_ms 500, Http_get (base_url ?s1) (Some ps) 30]\<rparr>)"
    using assms(2,3) by (intro get_page_ok) (simp_all add: emit_def n_requests_simps)
  then show ?thesis
    using assms(1) by (simp add: get_subcategories_def Let_def emit_def falsy_def)
qed

text \<open>
  C5, as the specification words it, fails: the nested list of the selected entry has two
  links, the second without a \<open>class\<close>, and one leaf is returned.
\<close>

lemma category_page_shape:
  "find is_sidebar (descendants category_soup) = Some category_sidebar"
  "find (\<lambda>t. is_tag (ascii ''li'') t \<and> has_class (site pages) (ascii ''selected'') t)
     (descendants category_sidebar) = Some selected_entry"
  "find (is_tag (ascii ''ul'')) (descendants selected_entry) = Some nested_ul"
  "find_all_a_href nested_ul =
     [(ascii ''?version=script&category=1&class=11'', car_link),
      (ascii ''?version=script&category=1'', truck_link)]"
  by (simp_all add: soup_defs bs4_defs site_fields ascii_def)

theorem link_without_class_is_no_leaf_counterexample:
  "find is_sidebar (descendants category_soup) = Some category_sidebar \<and>
   find (\<lambda>t. is_tag (ascii ''li'') t \<and> has_class (site []) (ascii ''selected'') t)
     (descendants category_sidebar) = Some selected_entry \<and>
   find (is_tag (ascii ''ul'')) (descendants selected_entry) = Some nested_ul \<and>
   length (find_all_a_href nested_ul) = 2 \<and>
   subcategories_of (site []) vehicles category_soup = Inr [car]"
  by (simp add: category_page_shape vehicles_subcategories)

text \<open>
  C5, amended. For a category page that was fetched, \<open>get_subcategories\<close> returns no leaf
  when the body is empty, and otherwise, when the parser accepts the body, what
  \<open>subcategories_of\<close> makes of the parsed page: no leaf when the page has no side bar;
  when the selected entry of the side bar has a nested list and \<open>urlparse\<close> can split the
  address of each of its links, one leaf for each link of that list whose query has the
  key of the category's version (\<open>class\<close> for script, \<open>function\<close> for engine), in the
  order of the page, with the version and category of the parent, the parent's name as
  \<open>category_name\<close>, the link's key and its trimmed text as name, the other links being
  skipped; and the category itself, alone, when no link has the key, when the selected
  entry has no nested list, or when no entry is selected.
\<close>

theorem subcategories_one_leaf_per_keyed_link:
  "(request_params ci = Inr ps \<and>
    http e (n_requests (trace s)) (base_url s) (Some ps) = Http_response status body \<and>
    (status < 400 \<or> 600 \<le> status) \<longrightarrow>
      (body = [] \<longrightarrow> fst (get_subcategories e ci s) = Inr []) \<and>
      (body \<noteq> [] \<and> \<not> rejects_markup e body \<longrightarrow>
         fst (get_subcategories e ci s) = subcategories_of e ci (BeautifulSoup e body))) \<and>
   (find is_sidebar (descendants soup) = None \<longrightarrow> subcategories_of e ci soup = Inr []) \<and>
   (find is_sidebar (descendants soup) = Some sidebar \<and>
    find (\<lambda>t. is_tag (ascii ''li'') t \<and> has_class e (ascii ''selected'') t) (descendants sidebar) = Some selected_li \<and>
    find (is_tag (ascii ''ul'')) (descendants selected_li) = Some nested \<and>
    (\<forall>hl \<in> set (find_all_a_href nested). \<not> urlparse_raises e (fst hl)) \<longrightarrow>
      subcategories_of e ci soup =
        Inr (if filter (has_version_key e ci) (find_all_a_href nested) = [] then [ci]
             else map (\<lambda>hl. \<lparr>ci_version = ci_version ci, ci_category = ci_category ci,
                 ci_class = (if ci_version ci = Script then parse_qs e (fst hl) (ascii ''class'') else None),
                 ci_function = (if ci_version ci = Script then None else parse_qs e (fst hl) (ascii ''function'')),
                 ci_name = strip e (get_text (snd hl)),
                 ci_category_name = Some (ci_name ci)\<rparr>)
               (filter (has_version_key e ci) (find_all_a_href nested)))) \<and>
   (find is_sidebar (descendants soup) = Some sidebar \<and>
    (find (\<lambda>t. is_tag (ascii ''li'') t \<and> has_class e (ascii ''selected'') t) (descendants sidebar) = None \<or>
     (find (\<lambda>t. is_tag (ascii ''li'') t \<and> has_class e (ascii ''selected'') t) (descendants sidebar) = Some selected_li \<and>
      find (is_tag (ascii ''ul'')) (descendants selected_li) = None)) \<longrightarrow>
      subcategories_of e ci soup = Inr [ci])"
proof -
  have "(body = [] \<longrightarrow> fst (get_subcategories e ci s) = Inr []) \<and>
      (body \<noteq> [] \<and> \<not> rejects_markup e body \<longrightarrow>
         fst (get_subcategories e ci s) = subcategories_of e ci (BeautifulSoup e body))"
    if "request_params ci = Inr ps \<and>
        http e (n_requests (trace s)) (base_url s) (Some ps) = Http_response status body \<and>
        (status < 400 \<or> 600 \<le> status)"
    using get_subcategories_ok [of ci ps e s status body]
          get_subcategories_empty [of ci ps e s status] that
    by auto
  then show ?thesis
    using subcategories_of_cases [of soup e ci sidebar selected_li nested] by blast
qed

lemma root_page_shape:
  "find is_sidebar (descendants root_soup) =
     Some (Tag (ascii ''div'') [(ascii ''style'', ascii ''width:200px;float:left'')]
            [Tag (ascii ''h3'') [(ascii ''class'', ascii ''version'')] [NavigableString (ascii ''Script'')],
             Tag (ascii ''ul'') [] [Tag (ascii ''li'') [] [vehicles_link]]])"
  "find (\<lambda>t. is_tag (ascii ''li'') t \<and> has_class (site pages) (ascii ''selected'') t)
     (descendants (Tag (ascii ''div'') [(ascii ''style'', ascii ''width:200px;float:left'')]
            [Tag (ascii ''h3'') [(ascii ''class'', ascii ''version'')] [NavigableString (ascii ''Script'')],
             Tag (ascii ''ul'') [] [Tag (ascii ''li'') [] [vehicles_link]]])) = None"
  by (simp_all add: soup_defs bs4_defs site_fields ascii_def)

theorem subcategories_one_leaf_per_keyed_link_witness:
  "fst (get_subcategories (site [Http_response 200 category_html]) vehicles
          (init default_url [ascii ''output''] no_files)) = Inr [car] \<and>
   fst (get_subcategories (site [Http_response 200 []]) vehicles
          (init default_url [ascii ''output''] no_files)) = Inr [] \<and>
   subcategories_of (site []) vehicles category_soup = Inr [car] \<and>
   subcategories_of (site []) vehicles root_soup = Inr [vehicles] \<and>
   subcategories_of (site []) vehicles gone_soup = Inr []"
proof -
  let ?w = "site [Http_response 200 category_html]"
  let ?v = "site [Http_response 200 []]"
  let ?s = "init default_url [ascii ''output''] no_files"
  let ?ps = "[(ascii ''version'', ascii ''script''), (ascii ''category'', ascii ''1''), (ascii ''class'', ascii ''10'')]"
  have fetched: "request_params vehicles = Inr ?ps \<and>
      http ?w (n_requests (trace ?s)) (base_url ?s) (Some ?ps) = Http_response 200 category_html \<and>
      ((200::nat) < 400 \<or> 600 \<le> (200::nat))"
    "category_html \<noteq> [] \<and> \<not> rejects_markup ?w category_html"
    by (simp_all add: request_vehicles init_def site_fields(1-5) n_requests_simps serve_def pages_distinct
          site_accepts)
  have 1: "fst (get_subcategories ?w vehicles ?s) = subcategories_of ?w vehicles (BeautifulSoup ?w category_html)"
    using subcategories_one_leaf_per_keyed_link [of vehicles ?ps ?w ?s 200 category_html] fetched
    by blast
  have empty: "request_params vehicles = Inr ?ps \<and>
      http ?v (n_requests (trace ?s)) (base_url ?s) (Some ?ps) = Http_response 200 [] \<and>
      ((200::nat) < 400 \<or> 600 \<le> (200::nat))"
    by (simp add: request_vehicles init_def site_fields(1-5) n_requests_simps serve_def)
  have 0: "fst (get_subcategories ?v vehicles ?s) = Inr []"
    using subcategories_one_leaf_per_keyed_link [of vehicles ?ps ?v ?s 200 "[]"] empty
    by blast
  have keyed: "filter (has_version_key (site []) vehicles) (find_all_a_href nested_ul) =
      [(ascii ''?version=script&category=1&class=11'', car_link)]"
    by (simp add: category_page_shape has_version_key_def vehicles_def site_fields site_parse_qs_def ascii_def)
  have splits: "\<forall>hl \<in> set (find_all_a_href nested_ul). \<not> urlparse_raises (site []) (fst hl)"
    by (simp add: category_page_shape site_fields ascii_def)
  have 2: "subcategories_of (site []) vehicles category_soup = Inr [car]"
    using subcategories_one_leaf_per_keyed_link
            [where ci = vehicles and e = "site []" and soup = category_soup and sidebar = category_sidebar
               and selected_li = selected_entry and nested = nested_ul]
          category_page_shape(1,3) category_page_shape(2) [of "[]"] keyed splits
    by (simp add: vehicles_def car_def car_link_def site_fields site_parse_qs_def strip_def lstrip_def
          rstrip_def ascii_def)
  have 3: "subcategories_of (site []) vehicles root_soup = Inr [vehicles]"
    using subcategories_one_leaf_per_keyed_link
            [where ci = vehicles and e = "site []" and soup = root_soup and sidebar =
                "Tag (ascii ''div'') [(ascii ''style'', ascii ''width:200px;float:left'')]
            [Tag (ascii ''h3'') [(ascii ''class'', ascii ''version'')] [NavigableString (ascii ''Script'')],
             Tag (ascii ''ul'') [] [Tag (ascii ''li'') [] [vehicles_link]]]"]
          root_page_shape(1) root_page_shape(2) [of "[]"]
    by blast
  have "find is_sidebar (descendants gone_soup) = None"
    by (simp add: soup_defs bs4_defs ascii_def)
  then have 4: "subcategories_of (site []) vehicles gone_soup = Inr []"
    using subcategories_one_leaf_per_keyed_link [where ci = vehicles and e = "site []" and soup = gone_soup]
    by blast
  show ?thesis
    using 0 1 2 3 4 by (simp add: site_fields site_parser_simps vehicles_subcategories)
qed

subsection \<open>Blank lines in the markdown\<close>

lemma flush_newlines_replicate: "flush_newlines n = replicate (min n 2) 10"
proof (cases "3 \<le> n")
  case True
  then have "min n 2 = 2" by simp
  with True show ?thesis by (simp add: flush_newlines_def numeral_2_eq_2)
next
  case False
  then show ?thesis by (simp add: flush_newlines_def)
qed

lemma no_triple_replicate:
  "no_triple k (replicate m 10 @ rest) = ((m = 0 \<or> k + m \<le> 2) \<and> no_triple (k + m) rest)"
  by (induction m arbitrary: k) auto

lemma no_triple_collapse: "no_triple 0 (collapse n s)"
proof (induction s arbitrary: n)
  case Nil
  show ?case
    using no_triple_replicate [of 0 "min n 2" "[]"] by (simp add: flush_newlines_replicate)
next
  case (Cons c cs)
  show ?case
  proof (cases "c = 10")
    case True
    then show ?thesis using Cons.IH by simp
  next
    case False
    then show ?thesis
      using Cons.IH [of 0] no_triple_replicate [of 0 "min n 2" "c # collapse 0 cs"]
      by (simp add: flush_newlines_replicate)
  qed
qed

lemma no_triple_run: "\<not> no_triple k (p @ [10, 10, 10] @ q)"
  by (induction p arbitrary: k) auto

lemma strip_middle: "\<exists>l r. s = l @ strip u s @ r"
proof -
  have "s = takeWhile (isspace u) s @ lstrip u s"
    by (simp add: lstrip_def)
  moreover have "lstrip u s = strip u s @ rev (takeWhile (isspace u) (rev (lstrip u s)))"
    unfolding strip_def rstrip_def
    by (metis rev_append rev_rev_ident takeWhile_dropWhile_id)
  ultimately show ?thesis by metis
qed

lemma markdown_no_triple: "html_to_markdown e (Some c) \<noteq> p @ [10, 10, 10] @ q"
proof
  assume a: "html_to_markdown e (Some c) = p @ [10, 10, 10] @ q"
  let ?m = "re_sub_newlines (h2t_handle e (str_node e c))"
  obtain l r where "?m = l @ strip e ?m @ r"
    using strip_middle by blast
  then have "?m = (l @ p) @ [10, 10, 10] @ (q @ r)"
    using a by (simp add: html_to_markdown_def)
  then have "\<not> no_triple 0 ?m"
    using no_triple_run [of 0 "l @ p" "q @ r"] by simp
  then show False
    by (simp add: re_sub_newlines_def no_triple_collapse)
qed

lemma collapse_replicate: "collapse n (replicate k 10 @ rest) = collapse (n + k) rest"
  by (induction k arbitrary: n) auto

lemma collapse_append:
  "a \<noteq> [] \<Longrightarrow> last a \<noteq> 10 \<Longrightarrow> collapse n (a @ rest) = collapse n a @ collapse 0 rest"
proof (induction a arbitrary: n)
  case Nil
  then show ?case by simp
next
  case (Cons c a)
  show ?case
  proof (cases "a = []")
    case True
    then show ?thesis using Cons.prems by (simp add: flush_newlines_def)
  next
    case False
    then show ?thesis using Cons by simp
  qed
qed

lemma collapse_last:
  "a \<noteq> [] \<Longrightarrow> last a \<noteq> 10 \<Longrightarrow> collapse n a \<noteq> [] \<and> last (collapse n a) = last a"
proof (induction a arbitrary: n)
  case Nil
  then show ?case by simp
next
  case (Cons c a)
  show ?case
  proof (cases "a = []")
    case True
    then show ?thesis using Cons.prems by (simp add: flush_newlines_def)
  next
    case False
    then show ?thesis using Cons by simp
  qed
qed

lemma collapse_keeps: "x \<in> set s \<Longrightarrow> x \<noteq> 10 \<Longrightarrow> x \<in> set (collapse n s)"
  by (induction s arbitrary: n) auto

lemma re_sub_newlines_run:
  assumes "a \<noteq> []" "last a \<noteq> 10" "b \<noteq> []" "hd b \<noteq> 10" "3 \<le> n"
  shows "re_sub_newlines (a @ replicate n 10 @ b) = re_sub_newlines a @ [10, 10] @ re_sub_newlines b"
proof -
  obtain c cs where b: "b = c # cs" "c \<noteq> 10"
    using assms(3,4) by (cases b) auto
  have "collapse 0 (a @ replicate n 10 @ b) = collapse 0 a @ collapse 0 (replicate n 10 @ b)"
    using assms(1,2) by (rule collapse_append)
  also have "collapse 0 (replicate n 10 @ b) = collapse n b"
    using collapse_replicate [of 0 n b] by simp
  also have "collapse n b = [10, 10] @ collapse 0 b"
    using b assms(5) by (simp add: flush_newlines_def)
  finally show ?thesis
    by (simp add: re_sub_newlines_def)
qed

lemma lstrip_append:
  "\<exists>x \<in> set a. \<not> isspace u x \<Longrightarrow> lstrip u (a @ rest) = lstrip u a @ rest"
  by (auto simp: lstrip_def dropWhile_append1)

lemma rstrip_append:
  "\<exists>x \<in> set b. \<not> isspace u x \<Longrightarrow> rstrip u (front @ b) = front @ rstrip u b"
  by (auto simp: rstrip_def dropWhile_append1)

lemma lstrip_last:
  "\<exists>x \<in> set a. \<not> isspace u x \<Longrightarrow> lstrip u a \<noteq> [] \<and> last (lstrip u a) = last a"
proof -
  assume a: "\<exists>x \<in> set a. \<not> isspace u x"
  then have ne: "lstrip u a \<noteq> []"
    by (auto simp: lstrip_def dropWhile_eq_Nil_conv)
  have "a = takeWhile (isspace u) a @ lstrip u a"
    by (simp add: lstrip_def)
  then have "last a = last (lstrip u a)"
    using ne by (metis last_appendR)
  with ne show ?thesis by simp
qed

lemma rstrip_nonempty: "\<exists>x \<in> set b. \<not> isspace u x \<Longrightarrow> rstrip u b \<noteq> []"
  by (auto simp: rstrip_def dropWhile_eq_Nil_conv)

lemma isspace_10: "isspace u 10"
  by (simp add: isspace_def)

lemma markdown_run:
  assumes "h2t_handle e (str_node e c) = a @ replicate n 10 @ b" and "3 \<le> n"
    and "a \<noteq> []" "last a \<noteq> 10" "\<exists>x \<in> set a. \<not> isspace e x"
    and "b \<noteq> []" "hd b \<noteq> 10" "\<exists>x \<in> set b. \<not> isspace e x"
  shows "html_to_markdown e (Some c) =
           lstrip e (re_sub_newlines a) @ [10, 10] @ rstrip e (re_sub_newlines b)"
    and "lstrip e (re_sub_newlines a) \<noteq> []" and "last (lstrip e (re_sub_newlines a)) = last a"
    and "rstrip e (re_sub_newlines b) \<noteq> []" and "hd (rstrip e (re_sub_newlines b)) = hd b"
proof -
  let ?A = "re_sub_newlines a" and ?B = "re_sub_newlines b"
  have A: "\<exists>x \<in> set ?A. \<not> isspace e x"
    using assms(5) collapse_keeps [of _ a 0] isspace_10 [of e] by (auto simp: re_sub_newlines_def)
  have B: "\<exists>x \<in> set ?B. \<not> isspace e x"
    using assms(8) collapse_keeps [of _ b 0] isspace_10 [of e] by (auto simp: re_sub_newlines_def)
  have B': "\<exists>x \<in> set ([10, 10] @ ?B). \<not> isspace e x"
    using B by auto
  have "html_to_markdown e (Some c) = strip e (?A @ [10, 10] @ ?B)"
    using re_sub_newlines_run [OF assms(3,4,6,7,2)] by (simp add: html_to_markdown_def assms(1))
  also have "\<dots> = rstrip e (lstrip e ?A @ [10, 10] @ ?B)"
    unfolding strip_def using lstrip_append [OF A] by simp
  also have "\<dots> = lstrip e ?A @ rstrip e ([10, 10] @ ?B)"
    using rstrip_append [OF B', of "lstrip e ?A"] by simp
  also have "rstrip e ([10, 10] @ ?B) = [10, 10] @ rstrip e ?B"
    using rstrip_append [OF B, of "[10, 10]"] by simp
  finally show "html_to_markdown e (Some c) = lstrip e ?A @ [10, 10] @ rstrip e ?B" .
  have "last ?A = last a"
    using collapse_last [OF assms(3,4), of 0] by (simp add: re_sub_newlines_def)
  then show "lstrip e ?A \<noteq> []" and "last (lstrip e ?A) = last a"
    using lstrip_last [OF A] by simp_all
  show "rstrip e ?B \<noteq> []"
    using B by (rule rstrip_nonempty)
  then have "hd (rstrip e ?B) = hd ?B"
    by (rule rstrip_hd)
  moreover have "hd ?B = hd b"
    using assms(6,7) by (cases b) (auto simp: re_sub_newlines_def flush_newlines_def)
  ultimately show "hd (rstrip e ?B) = hd b" by simp
qed

lemma collapse_no_triple: "n \<le> 2 \<Longrightarrow> no_triple n s \<Longrightarrow> collapse n s = replicate n 10 @ s"
proof (induction s arbitrary: n)
  case Nil
  then show ?case by (simp add: flush_newlines_def)
next
  case (Cons c cs)
  show ?case
  proof (cases "c = 10")
    case True
    then have "Suc n \<le> 2" "no_triple (Suc n) cs"
      using Cons.prems by simp_all
    then have "collapse (Suc n) cs = replicate (Suc n) 10 @ cs"
      by (rule Cons.IH)
    then show ?thesis
      using True by (simp add: replicate_app_Cons_same)
  next
    case False
    then have "no_triple 0 cs"
      using Cons.prems by simp
    then have "collapse 0 cs = cs"
      using Cons.IH [of 0] by simp
    then show ?thesis
      using False Cons.prems(1) by (simp add: flush_newlines_def)
  qed
qed

lemma markdown_unchanged:
  "no_triple 0 (h2t_handle e (str_node e c)) \<Longrightarrow>
   html_to_markdown e (Some c) = strip e (h2t_handle e (str_node e c))"
  using collapse_no_triple [of 0 "h2t_handle e (str_node e c)"]
  by (simp add: html_to_markdown_def re_sub_newlines_def)

lemma breaks_converted:
  "h2t_handle (site pages) (str_node (site pages) breaks_div) = breaks_markdown @ [10]"
  by (simp add: site_def breaks_div_def hello_div_def ascii_def)

lemma breaks_no_triple: "no_triple 0 (breaks_markdown @ [10])"
  by (simp add: breaks_markdown_def ascii_def)

lemma breaks_stripped: "strip (site pages) (breaks_markdown @ [10]) = breaks_markdown"
  by (simp add: breaks_markdown_def ascii_def strip_def lstrip_def rstrip_def site_fields)

lemma breaks_run:
  "html_to_markdown (site pages) (Some breaks_div) = breaks_markdown"
  using markdown_unchanged [of "site pages" breaks_div] breaks_no_triple
  by (simp add: breaks_converted breaks_stripped)

text \<open>
  C6, as the specification words it, fails: the converter writes a line break as two
  spaces and a line feed, so the blank lines it writes for a fragment with five breaks in
  a row hold two spaces each. No three line feeds are in a row there, and the four blank
  lines stay.
\<close>

theorem blank_lines_with_spaces_stay_counterexample:
  "h2t_handle (site []) (str_node (site []) breaks_div) =
     ascii ''x  '' @ [10] @ ascii ''  '' @ [10] @ ascii ''  '' @ [10] @ ascii ''  '' @ [10] @
     ascii ''  '' @ [10] @ ascii ''y'' @ [10] \<and>
   html_to_markdown (site []) (Some breaks_div) =
     ascii ''x  '' @ [10] @ ascii ''  '' @ [10] @ ascii ''  '' @ [10] @ ascii ''  '' @ [10] @
     ascii ''  '' @ [10] @ ascii ''y''"
  using breaks_converted [of "[]"] breaks_run [of "[]"] by (simp add: breaks_markdown_def)

text \<open>
  C6, amended. The markdown never has three line feeds in a row, that is, never two empty
  lines in a row. Where the text the converter returns has a run of three or more line
  feeds (two or more empty lines, so also three, four or more) between two lines of text,
  the markdown has exactly two line feeds, one empty line, between what comes before and
  what comes after, both cleaned in the same way and trimmed at the outer ends. A text of
  the converter without three line feeds in a row is only trimmed: blank lines that hold
  spaces are not collapsed.
\<close>

theorem markdown_collapses_blank_lines:
  "html_to_markdown e (Some c) \<noteq> p @ [10, 10, 10] @ q \<and>
   (h2t_handle e (str_node e c) = a @ replicate n 10 @ b \<and> 3 \<le> n \<and>
    a \<noteq> [] \<and> last a \<noteq> 10 \<and> (\<exists>x \<in> set a. \<not> isspace e x) \<and>
    b \<noteq> [] \<and> hd b \<noteq> 10 \<and> (\<exists>x \<in> set b. \<not> isspace e x) \<longrightarrow>
      html_to_markdown e (Some c) =
        lstrip e (re_sub_newlines a) @ [10, 10] @ rstrip e (re_sub_newlines b) \<and>
      lstrip e (re_sub_newlines a) \<noteq> [] \<and> last (lstrip e (re_sub_newlines a)) = last a \<and>
      rstrip e (re_sub_newlines b) \<noteq> [] \<and> hd (rstrip e (re_sub_newlines b)) = hd b) \<and>
   (no_triple 0 (h2t_handle e (str_node e c)) \<longrightarrow>
      html_to_markdown e (Some c) = strip e (h2t_handle e (str_node e c)))"
  using markdown_no_triple [of e c p q] markdown_run [of e c a n b] markdown_unchanged [of e c]
  by blast

theorem markdown_collapses_blank_lines_witness:
  "html_to_markdown ((site [])\<lparr>h2t_handle := (\<lambda>h. ascii ''one'' @ replicate 5 10 @ ascii ''two'')\<rparr>)
     (Some hello_div) = ascii ''one'' @ [10, 10] @ ascii ''two'' \<and>
   html_to_markdown (site []) (Some breaks_div) = breaks_markdown"
proof -
  let ?e = "(site [])\<lparr>h2t_handle := (\<lambda>h. ascii ''one'' @ replicate 5 10 @ ascii ''two'')\<rparr>"
  have hyp: "h2t_handle ?e (str_node ?e hello_div) = ascii ''one'' @ replicate 5 10 @ ascii ''two'' \<and>
      (3::nat) \<le> 5 \<and>
      ascii ''one'' \<noteq> [] \<and> last (ascii ''one'') \<noteq> 10 \<and> (\<exists>x \<in> set (ascii ''one''). \<not> isspace ?e x) \<and>
      ascii ''two'' \<noteq> [] \<and> hd (ascii ''two'') \<noteq> 10 \<and> (\<exists>x \<in> set (ascii ''two''). \<not> isspace ?e x)"
    by (simp add: ascii_def isspace_def)
  have "html_to_markdown ?e (Some hello_div) =
          lstrip ?e (re_sub_newlines (ascii ''one'')) @ [10, 10] @ rstrip ?e (re_sub_newlines (ascii ''two''))"
    using markdown_collapses_blank_lines [of ?e hello_div _ _ "ascii ''one''" 5 "ascii ''two''"] hyp
    by blast
  then have 1: "html_to_markdown ?e (Some hello_div) = ascii ''one'' @ [10, 10] @ ascii ''two''"
    by (simp add: re_sub_newlines_def flush_newlines_def lstrip_def rstrip_def ascii_def isspace_def)
  have "no_triple 0 (h2t_handle (site []) (str_node (site []) breaks_div))"
    by (simp add: breaks_converted breaks_no_triple)
  then have "html_to_markdown (site []) (Some breaks_div) =
          strip (site []) (h2t_handle (site []) (str_node (site []) breaks_div))"
    using markdown_collapses_blank_lines [of "site []" breaks_div] by blast
  then have 2: "html_to_markdown (site []) (Some breaks_div) = breaks_markdown"
    by (simp add: breaks_converted breaks_stripped)
  show ?thesis
    using 1 2 by simp
qed

end
